theory Spec2Isabelle
  imports Complex_Main "HOL-Library.Multiset"
begin

section \<open>Data model\<close>

text \<open>
  The engine is the class \<open>RouteOptimizer\<close> of
  \<open>backend/src/services/RouteOptimizer.ts\<close>. A JavaScript \<open>number\<close> is read as a
  real number: the model follows the code wherever no NaN, infinity or rounding
  occurs. An optional field is an \<open>option\<close>; \<open>undefined\<close> is \<open>None\<close>.

  The interface \<open>Address\<close> is a record. The representative that
  \<open>groupSameLocationAddresses\<close> builds is an \<open>Address\<close> with one more field,
  \<open>groupedAddresses\<close>, so it is a record extension, and the functions of the engine
  that the source types over \<open>Address[]\<close> are defined over every extension of
  the record. (The fields \<open>id\<close> and \<open>notes\<close> carry a suffix: both names are taken
  in Isabelle.)
\<close>

record Address =
  id_a :: string
  address :: string
  latitude :: "real option"
  longitude :: "real option"
  name :: "string option"
  notes_a :: "string option"

record GroupedAddress = Address +
  groupedAddresses :: "Address list option"


record Location =
  loc_latitude :: real
  loc_longitude :: real

text \<open>
  A distance matrix is \<open>number[][]\<close>. A cell that was never written, or a read
  outside the table, is \<open>undefined\<close> in the source, which the code tests for;
  so a cell is a \<open>real option\<close> and \<open>mcell\<close> is the read \<open>matrix[i] && matrix[i][j]\<close>.
\<close>

type_synonym matrix = "real option list list"

definition mcell :: "matrix \<Rightarrow> nat \<Rightarrow> nat \<Rightarrow> real option" where
  "mcell m i j = (if i < length m then (if j < length (m ! i) then m ! i ! j else None) else None)"

text \<open>The non-null assertion \<open>a.latitude!\<close> of the source.\<close>

abbreviation lat :: "'a Address_scheme \<Rightarrow> real" where
  "lat a \<equiv> the (latitude a)"

abbreviation lon :: "'a Address_scheme \<Rightarrow> real" where
  "lon a \<equiv> the (longitude a)"

text \<open>\<open>x || 0\<close> on an optional number.\<close>

definition or_zero :: "real option \<Rightarrow> real" where
  "or_zero x = (case x of None \<Rightarrow> 0 | Some v \<Rightarrow> v)"

text \<open>Truthiness of an optional number: defined and not zero.\<close>

definition truthy :: "real option \<Rightarrow> bool" where
  "truthy x = (case x of None \<Rightarrow> False | Some v \<Rightarrow> v \<noteq> 0)"

text \<open>
  \<open>Array.prototype.findIndex\<close>: the first position whose element satisfies the
  predicate; the source's \<open>-1\<close> is \<open>None\<close>.
\<close>

fun findIndex :: "('a \<Rightarrow> bool) \<Rightarrow> 'a list \<Rightarrow> nat option" where
  "findIndex P [] = None"
| "findIndex P (x # xs) =
     (if P x then Some 0 else (case findIndex P xs of None \<Rightarrow> None | Some i \<Rightarrow> Some (Suc i)))"

section \<open>Great-circle distance\<close>

definition toRadians :: "real \<Rightarrow> real" where
  "toRadians degrees = degrees * (pi / 180)"

text \<open>\<open>Math.atan2(y, x)\<close>.\<close>

definition atan2 :: "real \<Rightarrow> real \<Rightarrow> real" where
  "atan2 y x =
     (if 0 < x then arctan (y / x)
      else if x < 0 then (if 0 \<le> y then arctan (y / x) + pi else arctan (y / x) - pi)
      else if 0 < y then pi / 2
      else if y < 0 then - (pi / 2)
      else 0)"

definition calculateDistance :: "real \<Rightarrow> real \<Rightarrow> real \<Rightarrow> real \<Rightarrow> real" where
  "calculateDistance lat1 lon1 lat2 lon2 =
     (let R = 6371;
          dLat = toRadians (lat2 - lat1);
          dLon = toRadians (lon2 - lon1);
          a = sin (dLat / 2) * sin (dLat / 2) +
              cos (toRadians lat1) * cos (toRadians lat2) *
              sin (dLon / 2) * sin (dLon / 2);
          c = 2 * atan2 (sqrt a) (sqrt (1 - a))
      in R * c)"

text \<open>The distance between two addresses, as every caller spells it out.\<close>

definition haversine :: "'a Address_scheme \<Rightarrow> 'b Address_scheme \<Rightarrow> real" where
  "haversine a b = calculateDistance (lat a) (lon a) (lat b) (lon b)"

section \<open>Matrix lookups and route length\<close>

text \<open>
  \<open>this.originalAddresses\<close> is a field of the engine, written by \<open>optimizeRoute\<close>
  and read by \<open>findAddressIndex\<close>. Every function that reads it takes it as its first
  argument \<open>orig\<close>.
\<close>

definition findAddressIndex :: "'a Address_scheme list option \<Rightarrow> 'a Address_scheme \<Rightarrow> nat option" where
  "findAddressIndex orig a =
     (case orig of None \<Rightarrow> None | Some oa \<Rightarrow> findIndex (\<lambda>x. id_a x = id_a a) oa)"

definition getMatrixDistance ::
  "'a Address_scheme list option \<Rightarrow> 'a Address_scheme \<Rightarrow> 'a Address_scheme \<Rightarrow> matrix \<Rightarrow> real" where
  "getMatrixDistance orig from to m =
     (case findAddressIndex orig from of
        None \<Rightarrow> haversine from to
      | Some fromIdx \<Rightarrow>
          (case findAddressIndex orig to of
             None \<Rightarrow> haversine from to
           | Some toIdx \<Rightarrow>
               (case mcell m fromIdx toIdx of
                  Some d \<Rightarrow> d
                | None \<Rightarrow> haversine from to)))"

text \<open>
  \<open>calculateTotalDistanceWithMatrix\<close>: the loop \<open>for (i = 0; i < route.length - 1; i++)\<close>
  with the accumulator \<open>total\<close>. Its test on the two indices and the cell is the one
  of \<open>getMatrixDistance\<close>, written out again in the source.
\<close>

definition calculateTotalDistanceWithMatrix ::
  "'a Address_scheme list option \<Rightarrow> 'a Address_scheme list \<Rightarrow> matrix \<Rightarrow> real" where
  "calculateTotalDistanceWithMatrix orig route m =
     fold (\<lambda>i total.
             (case findAddressIndex orig (route ! i) of
                None \<Rightarrow> total + haversine (route ! i) (route ! (i + 1))
              | Some fromIdx \<Rightarrow>
                  (case findAddressIndex orig (route ! (i + 1)) of
                     None \<Rightarrow> total + haversine (route ! i) (route ! (i + 1))
                   | Some toIdx \<Rightarrow>
                       (case mcell m fromIdx toIdx of
                          Some d \<Rightarrow> total + d
                        | None \<Rightarrow> total + haversine (route ! i) (route ! (i + 1))))))
          [0 ..< length route - 1] 0"

definition calculateTotalDistance ::
  "'a Address_scheme list option \<Rightarrow> 'a Address_scheme list \<Rightarrow> matrix option \<Rightarrow> real" where
  "calculateTotalDistance orig route distanceMatrix =
     (case distanceMatrix of
        Some m \<Rightarrow> calculateTotalDistanceWithMatrix orig route m
      | None \<Rightarrow>
          fold (\<lambda>i total.
                  if truthy (latitude (route ! i)) \<and> truthy (longitude (route ! i)) \<and>
                     truthy (latitude (route ! (i + 1))) \<and> truthy (longitude (route ! (i + 1)))
                  then total + haversine (route ! i) (route ! (i + 1))
                  else total)
               [0 ..< length route - 1] 0)"

section \<open>Route metrics\<close>


section \<open>Address normalisation and grouping\<close>

text \<open>
  A string is a list of code units below 256 (Latin-1). \<open>toLowerCase\<close> maps the
  upper-case letters of that range to their lower-case ones; \<open>isSpace\<close> is the class
  \<open>\s\<close> of JavaScript regular expressions there, which is also what \<open>trim\<close> strips.
\<close>

definition toLowerCaseChar :: "char \<Rightarrow> char" where
  "toLowerCaseChar c =
     (let n = (of_char c :: nat)
      in if (65 \<le> n \<and> n \<le> 90) \<or> (192 \<le> n \<and> n \<le> 222 \<and> n \<noteq> 215)
         then char_of (n + 32) else c)"

definition toLowerCase :: "string \<Rightarrow> string" where
  "toLowerCase s = map toLowerCaseChar s"

definition isSpace :: "char \<Rightarrow> bool" where
  "isSpace c = (let n = (of_char c :: nat) in (9 \<le> n \<and> n \<le> 13) \<or> n = 32 \<or> n = 160)"

text \<open>
  Under the flag \<open>i\<close> a pattern letter matches both of its cases, and no other
  code unit below 256. \<open>isLetterCI\<close> is \<open>[a-z]\<close> and \<open>isAlnumCI\<close> is \<open>[a-z0-9]\<close>
  under that flag.
\<close>

definition isLetterCI :: "char \<Rightarrow> bool" where
  "isLetterCI c = (let n = (of_char c :: nat) in (97 \<le> n \<and> n \<le> 122) \<or> (65 \<le> n \<and> n \<le> 90))"

definition isAlnumCI :: "char \<Rightarrow> bool" where
  "isAlnumCI c = (let n = (of_char c :: nat) in isLetterCI c \<or> (48 \<le> n \<and> n \<le> 57))"

definition asciiLower :: "char \<Rightarrow> char" where
  "asciiLower c = (let n = (of_char c :: nat) in if 65 \<le> n \<and> n \<le> 90 then char_of (n + 32) else c)"

text \<open>A literal of the pattern matched at the head of the input; the rest is returned.\<close>

fun matchLiteralCI :: "string \<Rightarrow> string \<Rightarrow> string option" where
  "matchLiteralCI [] s = Some s"
| "matchLiteralCI (p # ps) [] = None"
| "matchLiteralCI (p # ps) (c # cs) =
     (if asciiLower c = asciiLower p then matchLiteralCI ps cs else None)"

text \<open>The alternation \<open>(apt|apartment|unit|suite|#)\<close>, tried in its order.\<close>

fun matchAlternatives :: "string list \<Rightarrow> string \<Rightarrow> string option" where
  "matchAlternatives [] s = None"
| "matchAlternatives (p # ps) s =
     (case matchLiteralCI p s of Some r \<Rightarrow> Some r | None \<Rightarrow> matchAlternatives ps s)"

definition optionalComma :: "string \<Rightarrow> string" where
  "optionalComma s = (case s of [] \<Rightarrow> [] | c # cs \<Rightarrow> if c = CHR '','' then cs else s)"

text \<open>
  \<open>/,?\s*(apt|apartment|unit|suite|#)\s*[a-z0-9]+/gi\<close> matched at the head of the
  input; the result is what follows the match. Each greedy quantifier takes all it
  can, and giving any of it back never lets the rest match: what follows \<open>,?\<close> cannot
  start with a comma, what follows each \<open>\s*\<close> cannot start with white space, no
  two alternatives match the same input, and the last class runs to the end of the
  match.
\<close>

definition matchUnit :: "string \<Rightarrow> string option" where
  "matchUnit s =
     (case matchAlternatives [''apt'', ''apartment'', ''unit'', ''suite'', ''#'']
             (dropWhile isSpace (optionalComma s)) of
        None \<Rightarrow> None
      | Some r \<Rightarrow>
          (case dropWhile isSpace r of
             [] \<Rightarrow> None
           | c # cs \<Rightarrow> if isAlnumCI c then Some (dropWhile isAlnumCI cs) else None))"

text \<open>
  \<open>.replace(/.../gi, '')\<close> for the first pattern: the leftmost match is deleted and
  the search goes on behind it.
\<close>

lemma matchLiteralCI_length: "matchLiteralCI p s = Some r \<Longrightarrow> length r + length p = length s"
  by (induction p s rule: matchLiteralCI.induct) (auto split: if_splits)

lemma matchAlternatives_length:
  "matchAlternatives ps s = Some r \<Longrightarrow> \<forall>p \<in> set ps. p \<noteq> [] \<Longrightarrow> length r < length s"
proof (induction ps)
  case Nil
  then show ?case by simp
next
  case (Cons p ps)
  show ?case
  proof (cases "matchLiteralCI p s")
    case None
    with Cons show ?thesis by simp
  next
    case (Some r')
    with Cons.prems have "r' = r" and "p \<noteq> []" by auto
    with Some matchLiteralCI_length [of p s r] show ?thesis by (cases p) auto
  qed
qed

lemma optionalComma_length: "length (optionalComma s) \<le> length s"
  by (auto simp: optionalComma_def split: list.splits)

lemma matchUnit_length:
  assumes "matchUnit s = Some r"
  shows "length r < length s"
proof -
  obtain r1 where r1: "matchAlternatives [''apt'', ''apartment'', ''unit'', ''suite'', ''#'']
      (dropWhile isSpace (optionalComma s)) = Some r1"
    using assms by (auto simp: matchUnit_def split: option.splits)
  have "length r1 < length (dropWhile isSpace (optionalComma s))"
    by (rule matchAlternatives_length [OF r1]) simp
  also have "\<dots> \<le> length (optionalComma s)" by (rule length_dropWhile_le)
  also have "\<dots> \<le> length s" by (rule optionalComma_length)
  finally have a: "length r1 < length s" .
  obtain c cs where c: "dropWhile isSpace r1 = c # cs" and r: "r = dropWhile isAlnumCI cs"
    using assms r1 by (auto simp: matchUnit_def split: list.splits if_splits)
  have "length r \<le> length cs" unfolding r by (rule length_dropWhile_le)
  also have "\<dots> < length (dropWhile isSpace r1)" using c by simp
  also have "\<dots> \<le> length r1" by (rule length_dropWhile_le)
  finally show ?thesis using a by simp
qed

function stripUnits :: "string \<Rightarrow> string" where
  "stripUnits [] = []"
| "stripUnits (c # cs) =
     (case matchUnit (c # cs) of
        Some r \<Rightarrow> stripUnits r
      | None \<Rightarrow> c # stripUnits cs)"
  by pat_completeness auto
termination
  by (relation "measure length") (auto dest: matchUnit_length)

text \<open>
  \<open>/,?\s*[a-z]\s*$/gi\<close> matched at the head of the input: it matches when the
  input is an optional comma, white space, one letter and white space up to the
  end. The leftmost match runs to the end of the string, so replacing it cuts the
  string there.
\<close>

definition matchLetterSuffix :: "string \<Rightarrow> bool" where
  "matchLetterSuffix s =
     (case dropWhile isSpace (optionalComma s) of
        [] \<Rightarrow> False
      | c # cs \<Rightarrow> isLetterCI c \<and> dropWhile isSpace cs = [])"

fun stripLetterSuffix :: "string \<Rightarrow> string" where
  "stripLetterSuffix [] = []"
| "stripLetterSuffix (c # cs) =
     (if matchLetterSuffix (c # cs) then [] else c # stripLetterSuffix cs)"

text \<open>\<open>.replace(/\s+/g, ' ')\<close>.\<close>

function collapseSpaces :: "string \<Rightarrow> string" where
  "collapseSpaces [] = []"
| "collapseSpaces (c # cs) =
     (if isSpace c then CHR '' '' # collapseSpaces (dropWhile isSpace cs)
      else c # collapseSpaces cs)"
  by pat_completeness auto
termination
  by (relation "measure length") (auto simp: length_dropWhile_le less_Suc_eq_le)

definition trim :: "string \<Rightarrow> string" where
  "trim s = rev (dropWhile isSpace (rev (dropWhile isSpace s)))"

definition normalizeAddressForGrouping :: "string \<Rightarrow> string" where
  "normalizeAddressForGrouping a =
     trim (collapseSpaces (stripLetterSuffix (stripUnits (toLowerCase a))))"

text \<open>
  A number in a template string, and \<open>join(', ')\<close>.
\<close>

function natToString :: "nat \<Rightarrow> string" where
  "natToString n =
     (if n < 10 then [char_of (48 + n)] else natToString (n div 10) @ [char_of (48 + n mod 10)])"
  by pat_completeness auto
termination
  by (relation "measure id") auto

declare natToString.simps [simp del]

fun joinWith :: "string \<Rightarrow> string list \<Rightarrow> string" where
  "joinWith sep [] = []"
| "joinWith sep [x] = x"
| "joinWith sep (x # y # ys) = x @ sep @ joinWith sep (y # ys)"

definition templateString :: "string option \<Rightarrow> string" where
  "templateString x = (case x of None \<Rightarrow> ''undefined'' | Some v \<Rightarrow> v)"

text \<open>\<open>a.name || a.id\<close>: an empty name is falsy as well.\<close>

definition nameOrId :: "Address \<Rightarrow> string" where
  "nameOrId a = (case name a of None \<Rightarrow> id_a a | Some v \<Rightarrow> if v = [] then id_a a else v)"

text \<open>
  The \<open>Map<string, Address[]>\<close> of \<open>groupSameLocationAddresses\<close> keeps its keys
  in insertion order, so it is an association list. \<open>mapPush\<close> is the body of the
  first \<open>forEach\<close>: create the key with an empty group if it is new, then push.
\<close>

fun mapPush :: "(string \<times> Address list) list \<Rightarrow> string \<Rightarrow> Address \<Rightarrow> (string \<times> Address list) list" where
  "mapPush [] k a = [(k, [a])]"
| "mapPush ((k', g) # rest) k a =
     (if k' = k then (k', g @ [a]) # rest else (k', g) # mapPush rest k a)"

definition locationGroups :: "Address list \<Rightarrow> (string \<times> Address list) list" where
  "locationGroups addresses =
     fold (\<lambda>a groups. mapPush groups (normalizeAddressForGrouping (address a)) a) addresses []"

definition representative :: "string \<Rightarrow> Address list \<Rightarrow> GroupedAddress" where
  "representative locationKey grp =
     \<lparr> id_a = ''group_'' @ locationKey,
       address = address (grp ! 0),
       latitude = latitude (grp ! 0),
       longitude = longitude (grp ! 0),
       name = Some (templateString (name (grp ! 0)) @ '' (+'' @ natToString (length grp - 1) @ '' more)''),
       notes_a = Some (''Group of '' @ natToString (length grp) @ '' deliveries: '' @
                       joinWith '', '' (map nameOrId grp)),
       groupedAddresses = Some grp \<rparr>"

definition groupSameLocationAddresses :: "Address list \<Rightarrow> GroupedAddress list" where
  "groupSameLocationAddresses addresses =
     map (\<lambda>(locationKey, grp).
            if length grp = 1 then Address.extend (grp ! 0) \<lparr> groupedAddresses = None \<rparr>
            else representative locationKey grp)
         (locationGroups addresses)"

definition expandGroupedRoute :: "GroupedAddress list \<Rightarrow> Address list" where
  "expandGroupedRoute groupedRoute =
     concat (map (\<lambda>stop. case groupedAddresses stop of
                            Some g \<Rightarrow> g
                          | None \<Rightarrow> [Address.truncate stop])
                 groupedRoute)"

section \<open>Distance matrix\<close>

text \<open>
  The external distance provider is the environment of the engine. One request
  carries the coordinates of a batch of origins and of a batch of destinations; the
  provider is a function of the request's number within the call and of these, so
  that it may answer the same batch differently at different times. Its answer is
  \<open>None\<close> when the request throws (the network, a quota, a response that cannot be
  read), else the rows of the response, each element with the status \<open>OK\<close> and a
  distance in metres, or with another status.
\<close>

datatype DistanceElement = ElementOK real | ElementNotOK

type_synonym coordinates = "real option \<times> real option"

type_synonym provider =
  "nat \<Rightarrow> coordinates list \<Rightarrow> coordinates list \<Rightarrow> DistanceElement list list option"

definition coordinatesOf :: "'a Address_scheme \<Rightarrow> coordinates" where
  "coordinatesOf a = (latitude a, longitude a)"

definition buildHaversineMatrix :: "'a Address_scheme list \<Rightarrow> matrix" where
  "buildHaversineMatrix addresses =
     (let n = length addresses
      in map (\<lambda>i. map (\<lambda>j. if i = j then Some 0
                            else Some (calculateDistance (lat (addresses ! i)) (lon (addresses ! i))
                                         (lat (addresses ! j)) (lon (addresses ! j))))
                      [0 ..< n])
             [0 ..< n])"

text \<open>
  One cell of \<open>getDistanceMatrixChunk\<close>. The fallback reads \<open>origins[i]\<close> and
  \<open>destinations[j]\<close>: where the response has more rows or elements than were asked
  for, that read throws, which is \<open>None\<close>.
\<close>

definition chunkCell ::
  "'a Address_scheme list \<Rightarrow> 'a Address_scheme list \<Rightarrow> nat \<Rightarrow> nat \<Rightarrow> DistanceElement \<Rightarrow> real option" where
  "chunkCell origins destinations i j element =
     (case element of
        ElementOK v \<Rightarrow> Some (v / 1000)
      | ElementNotOK \<Rightarrow>
          if i < length origins \<and> j < length destinations
          then Some (calculateDistance (lat (origins ! i)) (lon (origins ! i))
                       (lat (destinations ! j)) (lon (destinations ! j)))
          else None)"

definition getDistanceMatrixChunk ::
  "provider \<Rightarrow> nat \<Rightarrow> 'a Address_scheme list \<Rightarrow> 'a Address_scheme list \<Rightarrow> real list list option" where
  "getDistanceMatrixChunk prov k origins destinations =
     (case prov k (map coordinatesOf origins) (map coordinatesOf destinations) of
        None \<Rightarrow> None
      | Some rows \<Rightarrow>
          those (map (\<lambda>(i, row).
                        those (map (\<lambda>(j, element). chunkCell origins destinations i j element)
                                   (enumerate 0 row)))
                     (enumerate 0 rows)))"

text \<open>
  The two loops that copy a chunk into the matrix. \<open>chunk[oi]\<close> of a chunk with too
  few rows is \<open>undefined\<close> and reading its cell throws; \<open>chunk[oi][dj]\<close> of a row
  with too few cells is \<open>undefined\<close> and is written into the matrix as such.
\<close>

definition fillRow :: "matrix \<Rightarrow> nat \<Rightarrow> nat \<Rightarrow> nat \<Rightarrow> nat \<Rightarrow> real list list \<Rightarrow> matrix option" where
  "fillRow m i j oi nd chunk =
     (if nd = 0 then Some m
      else if oi < length chunk then
        Some (fold (\<lambda>dj m'. m'[i + oi := (m' ! (i + oi))[j + dj :=
                      (if dj < length (chunk ! oi) then Some (chunk ! oi ! dj) else None)]])
                   [0 ..< nd] m)
      else None)"

fun fillChunk :: "matrix \<Rightarrow> nat \<Rightarrow> nat \<Rightarrow> nat list \<Rightarrow> nat \<Rightarrow> real list list \<Rightarrow> matrix option" where
  "fillChunk m i j [] nd chunk = Some m"
| "fillChunk m i j (oi # ois) nd chunk =
     (case fillRow m i j oi nd chunk of
        None \<Rightarrow> None
      | Some m' \<Rightarrow> fillChunk m' i j ois nd chunk)"

definition chunkSize :: nat where
  "chunkSize = 10"

text \<open>\<open>addresses.slice(i, Math.min(i + chunkSize, n))\<close>.\<close>

definition sliceChunk :: "'a list \<Rightarrow> nat \<Rightarrow> 'a list" where
  "sliceChunk addresses i = take (min (i + chunkSize) (length addresses) - i) (drop i addresses)"

text \<open>The values of \<open>i\<close> and of \<open>j\<close> in \<open>for (i = 0; i < n; i += chunkSize)\<close>.\<close>

definition chunkStarts :: "nat \<Rightarrow> nat list" where
  "chunkStarts n = map (\<lambda>t. t * chunkSize) [0 ..< (n + chunkSize - 1) div chunkSize]"

text \<open>
  The body of the \<open>try\<close> block: the requests are awaited one after the other, the
  \<open>k\<close>-th for the \<open>k\<close>-th pair of batches, and the first one that throws ends the
  block.
\<close>

fun requestLoop ::
  "provider \<Rightarrow> 'a Address_scheme list \<Rightarrow> (nat \<times> nat) list \<Rightarrow> nat \<Rightarrow> matrix \<Rightarrow> matrix option" where
  "requestLoop prov addresses [] k m = Some m"
| "requestLoop prov addresses ((i, j) # rest) k m =
     (let origins = sliceChunk addresses i;
          destinations = sliceChunk addresses j
      in case getDistanceMatrixChunk prov k origins destinations of
           None \<Rightarrow> None
         | Some chunk \<Rightarrow>
             (case fillChunk m i j [0 ..< length origins] (length destinations) chunk of
                None \<Rightarrow> None
              | Some m' \<Rightarrow> requestLoop prov addresses rest (k + 1) m'))"

definition batchPairs :: "nat \<Rightarrow> (nat \<times> nat) list" where
  "batchPairs n = List.product (chunkStarts n) (chunkStarts n)"

definition buildDistanceMatrix :: "provider \<Rightarrow> string \<Rightarrow> 'a Address_scheme list \<Rightarrow> matrix" where
  "buildDistanceMatrix prov googleMapsApiKey addresses =
     (let n = length addresses;
          m = replicate n (replicate n (Some 0))
      in if googleMapsApiKey = [] then buildHaversineMatrix addresses
         else (case requestLoop prov addresses (batchPairs n) 0 m of
                 Some m' \<Rightarrow> m'
               | None \<Rightarrow> buildHaversineMatrix addresses))"

section \<open>Construction heuristics\<close>

text \<open>
  \<open>xs.splice(xs.indexOf(x), 1)\<close>: the first occurrence of \<open>x\<close> is cut out; when
  there is none, \<open>indexOf\<close> is \<open>-1\<close> and \<open>splice(-1, 1)\<close> cuts the last element.
\<close>

definition spliceIndexOf :: "'a \<Rightarrow> 'a list \<Rightarrow> 'a list" where
  "spliceIndexOf x xs =
     (case findIndex (\<lambda>y. y = x) xs of
        Some i \<Rightarrow> take i xs @ drop (Suc i) xs
      | None \<Rightarrow> butlast xs)"

text \<open>\<open>d < bound\<close> where the bound starts as \<open>Infinity\<close>, which is \<open>None\<close>.\<close>

definition lessThanBound :: "real \<Rightarrow> real option \<Rightarrow> bool" where
  "lessThanBound d bound = (case bound of None \<Rightarrow> True | Some b \<Rightarrow> d < b)"

text \<open>
  The test \<open>Math.abs(a.latitude! - start.latitude) < 0.001 && ...\<close> by which
  \<open>nearestNeighborWithMatrix\<close> and \<open>greedyTSP\<close> look for the start.
\<close>

definition nearStart :: "Location \<Rightarrow> 'a Address_scheme \<Rightarrow> bool" where
  "nearStart start a =
     (\<bar>lat a - loc_latitude start\<bar> < 0.001 \<and> \<bar>lon a - loc_longitude start\<bar> < 0.001)"

definition startingPoint :: "'a Address_scheme list \<Rightarrow> Location option \<Rightarrow> 'a Address_scheme" where
  "startingPoint unvisited start =
     (case start of
        None \<Rightarrow> unvisited ! 0
      | Some s \<Rightarrow> (case find (nearStart s) unvisited of Some a \<Rightarrow> a | None \<Rightarrow> unvisited ! 0))"

text \<open>
  The distance both heuristics compare: the conditional expression
  \<open>(currentIdx !== -1 && candidateIdx !== -1 && matrix[currentIdx] &&
  matrix[currentIdx][candidateIdx]) ? matrix[currentIdx][candidateIdx] :
  this.calculateDistance(...)\<close>. The cell is tested for truthiness, so a cell
  that holds 0 is replaced by the great-circle distance as well.
\<close>

definition candidateDistance ::
  "'a Address_scheme list option \<Rightarrow> matrix \<Rightarrow> 'a Address_scheme \<Rightarrow> 'a Address_scheme \<Rightarrow> real" where
  "candidateDistance orig m current candidate =
     (case findAddressIndex orig current of
        None \<Rightarrow> haversine current candidate
      | Some currentIdx \<Rightarrow>
          (case findAddressIndex orig candidate of
             None \<Rightarrow> haversine current candidate
           | Some candidateIdx \<Rightarrow>
               (case mcell m currentIdx candidateIdx of
                  None \<Rightarrow> haversine current candidate
                | Some d \<Rightarrow> if d \<noteq> 0 then d else haversine current candidate)))"

text \<open>The inner loop of \<open>nearestNeighborWithMatrix\<close> over the candidates.\<close>

definition nearestUnvisited ::
  "'a Address_scheme list option \<Rightarrow> matrix \<Rightarrow> 'a Address_scheme \<Rightarrow> 'a Address_scheme list \<Rightarrow> 'a Address_scheme" where
  "nearestUnvisited orig m current unvisited =
     fst (fold (\<lambda>candidate (nearest, shortestDistance).
                  (let distance = candidateDistance orig m current candidate
                   in if lessThanBound distance shortestDistance then (candidate, Some distance)
                      else (nearest, shortestDistance)))
               unvisited (unvisited ! 0, None))"

lemma length_spliceIndexOf: "xs \<noteq> [] \<Longrightarrow> length (spliceIndexOf x xs) < length xs"
proof -
  have "findIndex P ys = Some i \<Longrightarrow> i < length ys" for P and ys :: "'a list" and i
    by (induction ys arbitrary: i) (auto split: if_splits option.splits)
  then show "xs \<noteq> [] \<Longrightarrow> length (spliceIndexOf x xs) < length xs"
    by (fastforce simp: spliceIndexOf_def split: option.splits)
qed

function nearestNeighborLoop ::
  "'a Address_scheme list option \<Rightarrow> matrix \<Rightarrow> 'a Address_scheme \<Rightarrow> 'a Address_scheme list \<Rightarrow>
   'a Address_scheme list \<Rightarrow> 'a Address_scheme list" where
  "nearestNeighborLoop orig m current unvisited route =
     (if 0 < length unvisited then
        (let nearest = nearestUnvisited orig m current unvisited
         in nearestNeighborLoop orig m nearest (spliceIndexOf nearest unvisited) (route @ [nearest]))
      else route)"
  by pat_completeness auto
termination
  by (relation "measure (\<lambda>(orig, m, current, unvisited, route). length unvisited)")
     (auto intro: length_spliceIndexOf)

declare nearestNeighborLoop.simps [simp del]

definition nearestNeighborWithMatrix ::
  "'a Address_scheme list option \<Rightarrow> 'a Address_scheme list \<Rightarrow> matrix \<Rightarrow> Location option \<Rightarrow>
   'a Address_scheme list" where
  "nearestNeighborWithMatrix orig addresses m start =
     (if length addresses = 0 then []
      else if length addresses = 1 then addresses
      else (let current = startingPoint addresses start
            in nearestNeighborLoop orig m current (spliceIndexOf current addresses) [current]))"

text \<open>
  \<open>greedyTSP\<close>. Its \<open>Set\<close> of unvisited addresses iterates in insertion order and
  holds object references; the addresses of one call are distinct objects, so the
  set is the list of them and \<open>delete\<close> removes the one occurrence. The loop ends
  early (\<open>break\<close>) when no candidate was below \<open>Infinity\<close>.
\<close>

definition nextAddress ::
  "'a Address_scheme list option \<Rightarrow> matrix \<Rightarrow> 'a Address_scheme \<Rightarrow> 'a Address_scheme list \<Rightarrow>
   'a Address_scheme option" where
  "nextAddress orig m current unvisited =
     fst (fold (\<lambda>candidate (next, minCost).
                  (let cost = candidateDistance orig m current candidate
                   in if lessThanBound cost minCost then (Some candidate, Some cost)
                      else (next, minCost)))
               unvisited (None, None))"

lemma nextAddress_in_set:
  assumes "nextAddress orig m current unvisited = Some n"
  shows "n \<in> set unvisited"
proof -
  define step where "step = (\<lambda>candidate (next :: 'a Address_scheme option, minCost).
                  (let cost = candidateDistance orig m current candidate
                   in if lessThanBound cost minCost then (Some candidate, Some cost)
                      else (next, minCost)))"
  have step: "fst (step c acc) = Some c \<or> fst (step c acc) = fst acc" for c acc
    by (cases acc) (simp add: step_def Let_def)
  have "fst (fold step xs acc) = Some n \<Longrightarrow> n \<in> set xs \<or> fst acc = Some n" for xs acc
  proof (induction xs arbitrary: acc)
    case Nil
    then show ?case by simp
  next
    case (Cons c xs)
    from Cons.prems have "fst (fold step xs (step c acc)) = Some n" by simp
    from Cons.IH [OF this] step [of c acc] show ?case by auto
  qed
  from this [of unvisited "(None, None)"] assms show ?thesis
    by (simp add: nextAddress_def step_def)
qed

function greedyLoop ::
  "'a Address_scheme list option \<Rightarrow> matrix \<Rightarrow> 'a Address_scheme \<Rightarrow> 'a Address_scheme list \<Rightarrow>
   'a Address_scheme list \<Rightarrow> 'a Address_scheme list" where
  "greedyLoop orig m current unvisited route =
     (if 0 < length unvisited then
        (case nextAddress orig m current unvisited of
           Some next \<Rightarrow> greedyLoop orig m next (remove1 next unvisited) (route @ [next])
         | None \<Rightarrow> route)
      else route)"
  by pat_completeness auto
termination
  by (relation "measure (\<lambda>(orig, m, current, unvisited, route). length unvisited)")
     (auto dest!: nextAddress_in_set simp: length_remove1 in_set_conv_nth)

declare greedyLoop.simps [simp del]

definition greedyTSP ::
  "'a Address_scheme list option \<Rightarrow> 'a Address_scheme list \<Rightarrow> matrix \<Rightarrow> Location option \<Rightarrow>
   'a Address_scheme list" where
  "greedyTSP orig addresses m start =
     (if length addresses \<le> 3 then nearestNeighborWithMatrix orig addresses m start
      else (let current = startingPoint addresses start
            in greedyLoop orig m current (remove1 current addresses) [current]))"

section \<open>Local search\<close>

text \<open>
  The 2-opt move of \<open>apply2OptImprovement\<close>:
  \<open>[...improved.slice(0, i), ...improved.slice(i, j + 1).reverse(), ...improved.slice(j + 1)]\<close>.
\<close>

definition reverseSegment :: "'a list \<Rightarrow> nat \<Rightarrow> nat \<Rightarrow> 'a list" where
  "reverseSegment improved i j =
     take i improved @ rev (take (j + 1 - i) (drop i improved)) @ drop (j + 1) improved"

text \<open>
  The body of the two \<open>for\<close> loops at one pair \<open>(i, j)\<close>; the state is the route
  \<open>improved\<close> and the flag \<open>improvementFound\<close>.
\<close>

definition twoOptStep ::
  "'a Address_scheme list option \<Rightarrow> matrix \<Rightarrow> nat \<Rightarrow> nat \<Rightarrow>
   'a Address_scheme list \<times> bool \<Rightarrow> 'a Address_scheme list \<times> bool" where
  "twoOptStep orig m i j st =
     (let improved = fst st;
          currentDist = getMatrixDistance orig (improved ! (i - 1)) (improved ! i) m +
                        getMatrixDistance orig (improved ! j) (improved ! (j + 1)) m;
          newDist = getMatrixDistance orig (improved ! (i - 1)) (improved ! j) m +
                    getMatrixDistance orig (improved ! i) (improved ! (j + 1)) m
      in if newDist < currentDist then (reverseSegment improved i j, True) else st)"

text \<open>
  One pass: \<open>for (i = 1; i < improved.length - 2; i++) for (j = i + 1; j <
  improved.length - 1; j++)\<close>. The move keeps the length of the route, so the bounds
  are those of the route the pass starts with.
\<close>

definition twoOptPass ::
  "'a Address_scheme list option \<Rightarrow> matrix \<Rightarrow> 'a Address_scheme list \<Rightarrow> 'a Address_scheme list \<times> bool" where
  "twoOptPass orig m improved =
     (let n = length improved
      in fold (\<lambda>i st. fold (\<lambda>j st'. twoOptStep orig m i j st') [i + 1 ..< n - 1] st)
              [1 ..< n - 2] (improved, False))"

text \<open>The loop \<open>while (improvementFound && iterations < maxIterations)\<close>.\<close>

function twoOptLoop ::
  "'a Address_scheme list option \<Rightarrow> matrix \<Rightarrow> nat \<Rightarrow> nat \<Rightarrow> bool \<Rightarrow> 'a Address_scheme list \<Rightarrow>
   'a Address_scheme list" where
  "twoOptLoop orig m maxIterations iterations improvementFound improved =
     (if improvementFound \<and> iterations < maxIterations then
        (let st = twoOptPass orig m improved
         in twoOptLoop orig m maxIterations (iterations + 1) (snd st) (fst st))
      else improved)"
  by pat_completeness auto
termination
  by (relation "measure (\<lambda>(orig, m, maxIterations, iterations, found, improved).
                           maxIterations - iterations)") auto

declare twoOptLoop.simps [simp del]

definition apply2OptImprovement ::
  "'a Address_scheme list option \<Rightarrow> 'a Address_scheme list \<Rightarrow> matrix \<Rightarrow> 'a Address_scheme list" where
  "apply2OptImprovement orig route m =
     (if length route < 4 then route
      else twoOptLoop orig m (min 20 (length route)) 0 True route)"

text \<open>
  Or-opt. \<open>reinsertions improved i\<close> lists the routes \<open>newRoute\<close> of the inner loop
  in the order of \<open>j\<close>: the address at \<open>i\<close> taken out and put back at \<open>j\<close>.
\<close>

definition withoutIndex :: "'a list \<Rightarrow> nat \<Rightarrow> 'a list" where
  "withoutIndex improved i = map snd (filter (\<lambda>(idx, x). idx \<noteq> i) (enumerate 0 improved))"

definition reinsertions :: "'a list \<Rightarrow> nat \<Rightarrow> 'a list list" where
  "reinsertions improved i =
     (let addr = improved ! i;
          withoutAddress = withoutIndex improved i
      in map (\<lambda>j. take j withoutAddress @ [addr] @ drop j withoutAddress)
             [0 ..< length withoutAddress])"

text \<open>The first \<open>newRoute\<close> of the inner loop that costs less, at which it breaks.\<close>

definition firstBetter ::
  "'a Address_scheme list option \<Rightarrow> matrix \<Rightarrow> 'a Address_scheme list \<Rightarrow> nat \<Rightarrow> 'a Address_scheme list option" where
  "firstBetter orig m improved i =
     find (\<lambda>newRoute. calculateTotalDistance orig newRoute (Some m) <
                      calculateTotalDistance orig improved (Some m))
          (reinsertions improved i)"

text \<open>The outer \<open>for\<close> loop of one sweep, which breaks at the first accepted move.\<close>

fun orOptSweep ::
  "'a Address_scheme list option \<Rightarrow> matrix \<Rightarrow> 'a Address_scheme list \<Rightarrow> nat list \<Rightarrow>
   'a Address_scheme list option" where
  "orOptSweep orig m improved [] = None"
| "orOptSweep orig m improved (i # is) =
     (case firstBetter orig m improved i of
        Some newRoute \<Rightarrow> Some newRoute
      | None \<Rightarrow> orOptSweep orig m improved is)"

function orOptLoop ::
  "'a Address_scheme list option \<Rightarrow> matrix \<Rightarrow> nat \<Rightarrow> nat \<Rightarrow> bool \<Rightarrow> 'a Address_scheme list \<Rightarrow>
   'a Address_scheme list" where
  "orOptLoop orig m maxIterations iterations improvementFound improved =
     (if improvementFound \<and> iterations < maxIterations then
        (case orOptSweep orig m improved [1 ..< length improved - 1] of
           Some newRoute \<Rightarrow> orOptLoop orig m maxIterations (iterations + 1) True newRoute
         | None \<Rightarrow> orOptLoop orig m maxIterations (iterations + 1) False improved)
      else improved)"
  by pat_completeness auto
termination
  by (relation "measure (\<lambda>(orig, m, maxIterations, iterations, found, improved).
                           maxIterations - iterations)") auto

declare orOptLoop.simps [simp del]

definition applyOrOptImprovement ::
  "'a Address_scheme list option \<Rightarrow> 'a Address_scheme list \<Rightarrow> matrix \<Rightarrow> 'a Address_scheme list" where
  "applyOrOptImprovement orig route m =
     (if length route < 4 then route
      else orOptLoop orig m 10 0 True route)"

text \<open>\<open>applyLocalSearchImprovements\<close>: at most 50 rounds of 2-opt then Or-opt.\<close>

function localSearchLoop ::
  "'a Address_scheme list option \<Rightarrow> matrix \<Rightarrow> nat \<Rightarrow> nat \<Rightarrow> bool \<Rightarrow> 'a Address_scheme list \<Rightarrow>
   'a Address_scheme list" where
  "localSearchLoop orig m maxIterations iterations keepImproving improved =
     (if keepImproving \<and> iterations < maxIterations then
        (let before_d = calculateTotalDistance orig improved (Some m);
             improved2 = apply2OptImprovement orig improved m;
             improved3 = applyOrOptImprovement orig improved2 m;
             after_d = calculateTotalDistance orig improved3 (Some m)
         in localSearchLoop orig m maxIterations (iterations + 1) (after_d < before_d) improved3)
      else improved)"
  by pat_completeness auto
termination
  by (relation "measure (\<lambda>(orig, m, maxIterations, iterations, keep, improved).
                           maxIterations - iterations)") auto

declare localSearchLoop.simps [simp del]

definition applyLocalSearchImprovements ::
  "'a Address_scheme list option \<Rightarrow> 'a Address_scheme list \<Rightarrow> matrix \<Rightarrow> 'a Address_scheme list" where
  "applyLocalSearchImprovements orig route m = localSearchLoop orig m 50 0 True route"

section \<open>Tiers\<close>

definition christofidesApproximation ::
  "'a Address_scheme list option \<Rightarrow> 'a Address_scheme list \<Rightarrow> matrix \<Rightarrow> Location option \<Rightarrow>
   'a Address_scheme list" where
  "christofidesApproximation orig addresses m start =
     (if length addresses \<le> 5 then greedyTSP orig addresses m start
      else apply2OptImprovement orig (nearestNeighborWithMatrix orig addresses m start) m)"

text \<open>
  \<open>advancedTSPOptimization\<close>: the three routes, and the loop that keeps the first
  one of least total distance.
\<close>

definition advancedTSPOptimization ::
  "'a Address_scheme list option \<Rightarrow> 'a Address_scheme list \<Rightarrow> matrix \<Rightarrow> Location option \<Rightarrow>
   'a Address_scheme list" where
  "advancedTSPOptimization orig addresses m start =
     (let results = [nearestNeighborWithMatrix orig addresses m start,
                     greedyTSP orig addresses m start,
                     christofidesApproximation orig addresses m start]
      in fst (fold (\<lambda>route (bestRoute, bestDistance).
                      (let distance = calculateTotalDistance orig route (Some m)
                       in if distance < bestDistance then (route, distance)
                          else (bestRoute, bestDistance)))
                   results
                   (results ! 0, calculateTotalDistance orig (results ! 0) (Some m))))"

definition hybridOptimization ::
  "'a Address_scheme list option \<Rightarrow> 'a Address_scheme list \<Rightarrow> matrix \<Rightarrow> Location option \<Rightarrow>
   'a Address_scheme list" where
  "hybridOptimization orig addresses m start =
     (let route = nearestNeighborWithMatrix orig addresses m start;
          route2 = apply2OptImprovement orig route m
      in applyOrOptImprovement orig route2 m)"

section \<open>The cluster tier\<close>

text \<open>
  \<open>createSmartClusters\<close>. A centre is the pair \<open>{lat, lng}\<close>. The array \<open>clusters\<close>
  of the source is sparse: a slot is created when its first address is pushed, and
  the final \<open>filter\<close> skips the slots that were never created, as it drops empty
  ones. Here every slot the loop can reach exists from the start and is empty.
\<close>

definition nearestCenter :: "'a Address_scheme \<Rightarrow> (real \<times> real) list \<Rightarrow> nat" where
  "nearestCenter a centers =
     fst (fold (\<lambda>i (nearestCluster, minDistance).
                  (let distance = calculateDistance (lat a) (lon a) (fst (centers ! i)) (snd (centers ! i))
                   in if lessThanBound distance minDistance then (i, Some distance)
                      else (nearestCluster, minDistance)))
               [0 ..< length centers] (0, None))"

definition createSmartClusters :: "'a Address_scheme list \<Rightarrow> nat \<Rightarrow> 'a Address_scheme list list" where
  "createSmartClusters addresses cnt =
     (if length addresses \<le> cnt then map (\<lambda>addr. [addr]) addresses
      else (let centers = map (\<lambda>i. (let idx = (i * length addresses) div cnt
                                     in (lat (addresses ! idx), lon (addresses ! idx))))
                              [0 ..< cnt];
                clusters = fold (\<lambda>a cl. (let nearestCluster = nearestCenter a centers
                                           in cl[nearestCluster := cl ! nearestCluster @ [a]]))
                                addresses (replicate (max 1 cnt) [])
            in filter (\<lambda>cluster. 0 < length cluster) clusters))"

text \<open>
  \<open>extractSubMatrix\<close>. An index is the result of \<open>indexOf\<close>, so it may be \<open>-1\<close>
  (\<open>None\<close>), for which the cell is 0 as for every cell that is not in the matrix.
\<close>

definition extractSubMatrix :: "matrix \<Rightarrow> nat option list \<Rightarrow> matrix" where
  "extractSubMatrix m indices =
     map (\<lambda>i. map (\<lambda>j. (case i of
                           None \<Rightarrow> Some 0
                         | Some i' \<Rightarrow>
                             (case j of
                                None \<Rightarrow> Some 0
                              | Some j' \<Rightarrow>
                                  (case mcell m i' j' of Some d \<Rightarrow> Some d | None \<Rightarrow> Some 0))))
                   indices)
         indices"

text \<open>\<open>findNearestAddress\<close> and \<open>nearestNeighborTSP\<close>, which order the centroids.\<close>

definition findNearestAddress :: "'a Address_scheme list \<Rightarrow> Location \<Rightarrow> 'a Address_scheme" where
  "findNearestAddress addresses location =
     fst (fold (\<lambda>a (nearest, minDistance).
                  (let distance = calculateDistance (loc_latitude location) (loc_longitude location)
                                    (lat a) (lon a)
                   in if distance < minDistance then (a, distance) else (nearest, minDistance)))
               addresses
               (addresses ! 0,
                calculateDistance (loc_latitude location) (loc_longitude location)
                  (lat (addresses ! 0)) (lon (addresses ! 0))))"

function nearestNeighborTSPLoop ::
  "'a Address_scheme \<Rightarrow> 'a Address_scheme list \<Rightarrow> 'a Address_scheme list \<Rightarrow> 'a Address_scheme list" where
  "nearestNeighborTSPLoop current unvisited route =
     (if 0 < length unvisited then
        (let nearest = findNearestAddress unvisited
                         \<lparr> loc_latitude = lat current, loc_longitude = lon current \<rparr>
         in nearestNeighborTSPLoop nearest (spliceIndexOf nearest unvisited) (route @ [nearest]))
      else route)"
  by pat_completeness auto
termination
  by (relation "measure (\<lambda>(current, unvisited, route). length unvisited)")
     (auto intro: length_spliceIndexOf)

declare nearestNeighborTSPLoop.simps [simp del]

definition nearestNeighborTSP :: "'a Address_scheme list \<Rightarrow> Location option \<Rightarrow> 'a Address_scheme list" where
  "nearestNeighborTSP addresses startLocation =
     (if length addresses = 0 then []
      else (let current = (case startLocation of
                             Some s \<Rightarrow> findNearestAddress addresses s
                           | None \<Rightarrow> addresses ! 0)
            in nearestNeighborTSPLoop current (spliceIndexOf current addresses) [current]))"

text \<open>
  \<open>optimizeClusterOrder\<close>. The centroid of a cluster is an address of its own; the
  clusters are then read back by looking, for each ordered centroid, for the first
  centroid within 0.0001 degrees of it.
\<close>

definition clusterCenter :: "'a Address_scheme list \<Rightarrow> Address" where
  "clusterCenter cluster =
     (let avgLat = fold (\<lambda>addr sum. sum + or_zero (latitude addr)) cluster 0 / real (length cluster);
          avgLng = fold (\<lambda>addr sum. sum + or_zero (longitude addr)) cluster 0 / real (length cluster)
      in \<lparr> id_a = ''cluster-'' @ natToString (length cluster),
           address = ''cluster-center'',
           latitude = Some avgLat,
           longitude = Some avgLng,
           name = None,
           notes_a = None \<rparr>)"

definition sameCenter :: "Address \<Rightarrow> Address \<Rightarrow> bool" where
  "sameCenter center c =
     (\<bar>lat c - or_zero (latitude center)\<bar> < 0.0001 \<and> \<bar>lon c - or_zero (longitude center)\<bar> < 0.0001)"

definition optimizeClusterOrder ::
  "'a Address_scheme list list \<Rightarrow> matrix \<Rightarrow> 'a Address_scheme list \<Rightarrow> Location option \<Rightarrow>
   'a Address_scheme list list" where
  "optimizeClusterOrder clusters m allAddresses start =
     (if length clusters \<le> 1 then clusters
      else (let clusterCenters = map clusterCenter clusters;
                orderedCenters = nearestNeighborTSP clusterCenters start
            in concat (map (\<lambda>center.
                              (case findIndex (sameCenter center) clusterCenters of
                                 None \<Rightarrow> []
                               | Some clusterIndex \<Rightarrow>
                                   if clusterIndex < length clusters then [clusters ! clusterIndex]
                                   else []))
                           orderedCenters)))"

definition clusterBasedOptimization ::
  "'a Address_scheme list option \<Rightarrow> 'a Address_scheme list \<Rightarrow> matrix \<Rightarrow> Location option \<Rightarrow>
   'a Address_scheme list" where
  "clusterBasedOptimization orig addresses m start =
     (let clusterCount = (length addresses + 29) div 30;
          clusters = createSmartClusters addresses clusterCount;
          optimizedClusters =
            map (\<lambda>cluster.
                   (let clusterIndices = map (\<lambda>addr. findIndex (\<lambda>x. x = addr) addresses) cluster;
                        clusterMatrix = extractSubMatrix m clusterIndices
                    in nearestNeighborWithMatrix orig cluster clusterMatrix None))
                clusters;
          clusterRoute = optimizeClusterOrder optimizedClusters m addresses start
      in concat clusterRoute)"

section \<open>The engine\<close>

text \<open>
  The fields of the class. \<open>optimizeRoute\<close> writes \<open>originalAddresses\<close>, so it
  takes the engine and returns it with the route. The two caches are never read
  or written.
\<close>

record RouteOptimizer =
  googleMapsApiKey :: string
  distanceCache :: "(string \<times> real) list"
  timeCache :: "(string \<times> real) list"
  originalAddresses :: "GroupedAddress list option"

definition optimizeRoute ::
  "provider \<Rightarrow> RouteOptimizer \<Rightarrow> Address list \<Rightarrow> Location option \<Rightarrow> Address list \<times> RouteOptimizer" where
  "optimizeRoute prov this addresses startLocation =
     (if length addresses \<le> 2 then (addresses, this)
      else (let groupedAddresses = groupSameLocationAddresses addresses;
                this' = this \<lparr> originalAddresses := Some groupedAddresses \<rparr>;
                orig = originalAddresses this';
                distanceMatrix = buildDistanceMatrix prov (googleMapsApiKey this') groupedAddresses;
                optimizedRoute =
                  (if length groupedAddresses \<le> 25 then
                     advancedTSPOptimization orig groupedAddresses distanceMatrix startLocation
                   else if length groupedAddresses \<le> 100 then
                     hybridOptimization orig groupedAddresses distanceMatrix startLocation
                   else
                     clusterBasedOptimization orig groupedAddresses distanceMatrix startLocation);
                improvedRoute = applyLocalSearchImprovements orig optimizedRoute distanceMatrix
            in (expandGroupedRoute improvedRoute, this')))"



definition stopAt :: "string \<Rightarrow> string \<Rightarrow> real \<Rightarrow> real \<Rightarrow> Address" where
  "stopAt i a la lo =
     \<lparr> id_a = i, address = a, latitude = Some la, longitude = Some lo, name = None, notes_a = None \<rparr>"


text \<open>Inputs of the examples: four stops, and two matrices over them.\<close>

definition fourStops :: "Address list" where
  "fourStops = [stopAt ''a'' ''1 Elm Rd 10'' 0 0, stopAt ''b'' ''2 Elm Rd 20'' 0 1,
                stopAt ''c'' ''3 Elm Rd 30'' 0 2, stopAt ''d'' ''4 Elm Rd 40'' 0 3]"


definition symmetricMatrix :: matrix where
  "symmetricMatrix = [[Some 0, Some 3, Some 1, Some 2],
                      [Some 3, Some 0, Some 1, Some 1],
                      [Some 1, Some 1, Some 0, Some 4],
                      [Some 2, Some 1, Some 4, Some 0]]"






text \<open>
  Providers for the examples: one that answers 1500 metres for every pair, also
  for a stop and itself; one that leaves out the last element of every row; one
  that answers the first request and throws at every later one.
\<close>

definition flatProvider :: provider where
  "flatProvider k os ds = Some (map (\<lambda>_. map (\<lambda>_. ElementOK 1500) ds) os)"




text \<open>
  The words of the nearest-neighbour construction. \<open>isFirstMinimum f xs x\<close>: \<open>x\<close>
  is the element of \<open>xs\<close> of least \<open>f\<close>, the earliest one among equals.
  \<open>greedyChain d current unvisited rest\<close>: \<open>rest\<close> visits all of \<open>unvisited\<close>, each
  time going to the first minimum of the distance from where it stands.
  \<open>isStartingGroup addresses start g\<close>: \<open>g\<close> is the first address within 0.001
  degrees of the start in latitude and in longitude, or the first address when no
  start is given or no address is that close.
\<close>

definition isFirstMinimum :: "('a \<Rightarrow> real) \<Rightarrow> 'a list \<Rightarrow> 'a \<Rightarrow> bool" where
  "isFirstMinimum f xs x =
     (\<exists>k \<in> {..< length xs}. xs ! k = x \<and> (\<forall>j \<in> {..< length xs}. f x \<le> f (xs ! j)) \<and>
                             (\<forall>j \<in> {..< k}. f x < f (xs ! j)))"

fun greedyChain :: "('a \<Rightarrow> 'a \<Rightarrow> real) \<Rightarrow> 'a \<Rightarrow> 'a list \<Rightarrow> 'a list \<Rightarrow> bool" where
  "greedyChain d current unvisited [] = (unvisited = [])"
| "greedyChain d current unvisited (n # rest) =
     (isFirstMinimum (d current) unvisited n \<and> greedyChain d n (remove1 n unvisited) rest)"

definition isStartingGroup :: "'a Address_scheme list \<Rightarrow> Location option \<Rightarrow> 'a Address_scheme \<Rightarrow> bool" where
  "isStartingGroup addresses start g =
     (case start of
        None \<Rightarrow> g = addresses ! 0
      | Some s \<Rightarrow>
          if (\<exists>a \<in> set addresses. nearStart s a)
          then (\<exists>k \<in> {..< length addresses}. addresses ! k = g \<and> nearStart s g \<and>
                  (\<forall>j \<in> {..< k}. \<not> nearStart s (addresses ! j)))
          else g = addresses ! 0)"

text \<open>Two stops 0.0005 degrees of longitude apart, and a matrix over them.\<close>

definition quayStops :: "Address list" where
  "quayStops = [stopAt ''g0'' ''1 Quay St 10'' 0 (1 / 2000), stopAt ''g1'' ''2 Quay St 20'' 0 0]"

definition quayMatrix :: matrix where
  "quayMatrix = [[Some 0, Some (1 / 18)], [Some (1 / 18), Some 0]]"

text \<open>
  \<open>twoOptPasses orig m k route\<close> is the route after \<open>k\<close> full 2-opt passes, each
  starting from the route the one before it left.
\<close>

definition twoOptPasses ::
  "'a Address_scheme list option \<Rightarrow> matrix \<Rightarrow> nat \<Rightarrow> 'a Address_scheme list \<Rightarrow> 'a Address_scheme list" where
  "twoOptPasses orig m k route = ((\<lambda>r. fst (twoOptPass orig m r)) ^^ k) route"

text \<open>Six stops and a symmetric matrix over them.\<close>

definition sixStops :: "Address list" where
  "sixStops = [stopAt ''0'' ''10 Mill Ln 1'' 0 0, stopAt ''1'' ''11 Mill Ln 1'' 0 1,
               stopAt ''2'' ''12 Mill Ln 1'' 0 2, stopAt ''3'' ''13 Mill Ln 1'' 0 3,
               stopAt ''4'' ''14 Mill Ln 1'' 0 4, stopAt ''5'' ''15 Mill Ln 1'' 0 5]"

definition sixMatrix :: matrix where
  "sixMatrix = [[Some 0, Some 4, Some 4, Some 7, Some 5, Some 9],
                [Some 4, Some 0, Some 1, Some 5, Some 9, Some 5],
                [Some 4, Some 1, Some 0, Some 9, Some 5, Some 8],
                [Some 7, Some 5, Some 9, Some 0, Some 3, Some 7],
                [Some 5, Some 9, Some 5, Some 3, Some 0, Some 2],
                [Some 9, Some 5, Some 8, Some 7, Some 2, Some 0]]"

text \<open>
  \<open>leastOfThree cost a b c r\<close>: \<open>r\<close> is one of the three routes and none of them
  costs less.
\<close>

definition leastOfThree :: "('a \<Rightarrow> real) \<Rightarrow> 'a \<Rightarrow> 'a \<Rightarrow> 'a \<Rightarrow> 'a \<Rightarrow> bool" where
  "leastOfThree cost a b c r =
     ((r = a \<or> r = b \<or> r = c) \<and> cost r \<le> cost a \<and> cost r \<le> cost b \<and> cost r \<le> cost c)"

text \<open>
  Inputs of the examples: three stops of which the first and the last share an
  address key; \<open>n\<close> stops with distinct addresses, the even ones at one point and the
  odd ones 0.00005 degrees of longitude east of it; engines with and without a
  provider key, one of them left over from an earlier call.
\<close>

definition mainOakStops :: "Address list" where
  "mainOakStops = [stopAt ''0'' ''1 Main St Apt 1'' 0 0, stopAt ''1'' ''2 Oak Ave 7'' 0 1,
                   stopAt ''2'' ''1 Main St Apt 2'' 0 0]"

definition elmStops :: "nat \<Rightarrow> Address list" where
  "elmStops n =
     map (\<lambda>i. stopAt (natToString i) (natToString i @ '' Elm Rd 10'') 0 (if even i then 0 else 1 / 20000))
         [0 ..< n]"

definition engineWithKey :: RouteOptimizer where
  "engineWithKey = \<lparr> googleMapsApiKey = ''key'', distanceCache = [], timeCache = [],
                     originalAddresses = None \<rparr>"



text \<open>
  Notions for the failing input of claim C1: decimal digits and the value of a
  numeral; the two points where its stops lie and the four cluster centres they
  give; the group of its \<open>i\<close>-th stop.
\<close>

definition isDigit :: "char \<Rightarrow> bool" where
  "isDigit c = (let n = (of_char c :: nat) in 48 \<le> n \<and> n \<le> 57)"

fun numeralValue :: "string \<Rightarrow> nat" where
  "numeralValue s = foldl (\<lambda>acc c. 10 * acc + (of_char c - 48)) 0 s"

definition atWest :: "'a Address_scheme \<Rightarrow> bool" where
  "atWest a = (latitude a = Some 0 \<and> longitude a = Some 0)"

definition atEast :: "'a Address_scheme \<Rightarrow> bool" where
  "atEast a = (latitude a = Some 0 \<and> longitude a = Some (1 / 20000))"

definition fourCenters :: "(real \<times> real) list" where
  "fourCenters = [(0, 0), (0, 1 / 20000), (0, 0), (0, 1 / 20000)]"

definition elmGroup :: "nat \<Rightarrow> GroupedAddress" where
  "elmGroup i = Address.extend
     (stopAt (natToString i) (natToString i @ '' Elm Rd 10'') 0 (if even i then 0 else 1 / 20000))
     \<lparr> groupedAddresses = None \<rparr>"

text \<open>
  The great-circle formula goes through \<open>pi\<close> and is left abstract for evaluation:
  a concrete run is evaluated up to the distances it reads from the matrix, and the
  lemmas below say what the formula gives where it is needed.
\<close>

declare calculateDistance_def [code del]

section \<open>Properties of the distance and of the metrics\<close>

lemma calculateDistance_same: "calculateDistance la lo la lo = 0"
  by (simp add: calculateDistance_def toRadians_def atan2_def)

lemma haversine_same_coordinates:
  "latitude a = latitude b \<Longrightarrow> longitude a = longitude b \<Longrightarrow> haversine a b = 0"
  by (simp add: haversine_def calculateDistance_same)




section \<open>Properties of the address normalisation\<close>














lemma matchLetterSuffix_last:
  assumes "matchLetterSuffix u"
  shows "u \<noteq> [] \<and> (isLetterCI (last u) \<or> isSpace (last u))"
proof -
  obtain c cs where d: "dropWhile isSpace (optionalComma u) = c # cs"
    and c: "isLetterCI c" and cs: "dropWhile isSpace cs = []"
    using assms by (auto simp: matchLetterSuffix_def split: list.splits)
  have "\<exists>p. optionalComma u = p @ c # cs"
    using d by (metis takeWhile_dropWhile_id)
  moreover have "\<exists>q. u = q @ optionalComma u"
    by (cases u) (auto simp: optionalComma_def intro: exI [of _ "[]"] exI [of _ "[CHR '','']"])
  ultimately obtain p where u: "u = p @ c # cs" by (metis append.assoc)
  have sp: "\<forall>x \<in> set cs. isSpace x" using cs by (simp add: dropWhile_eq_Nil_conv)
  show ?thesis
  proof (cases "cs = []")
    case True
    with u c show ?thesis by simp
  next
    case False
    with u have "last u = last cs" by simp
    with False sp u show ?thesis by auto
  qed
qed

lemma stripLetterSuffix_no_match:
  "t = [] \<or> (\<not> isLetterCI (last t) \<and> \<not> isSpace (last t)) \<Longrightarrow> stripLetterSuffix t = t"
proof (induction t)
  case Nil
  then show ?case by simp
next
  case (Cons c cs)
  then have l: "\<not> isLetterCI (last (c # cs)) \<and> \<not> isSpace (last (c # cs))" by simp
  then have "\<not> matchLetterSuffix (c # cs)" using matchLetterSuffix_last by blast
  moreover have "stripLetterSuffix cs = cs"
    using Cons.IH l by (cases "cs = []") auto
  ultimately show ?case by simp
qed


lemma trim_fixed:
  assumes "t = [] \<or> (\<not> isSpace (hd t) \<and> \<not> isSpace (last t))"
  shows "trim t = t"
proof (cases "t = []")
  case True
  then show ?thesis by (simp add: trim_def)
next
  case False
  with assms have h: "\<not> isSpace (hd t)" and l: "\<not> isSpace (last t)" by auto
  from False h have a: "dropWhile isSpace t = t" by (cases t) auto
  from False l have "\<not> isSpace (hd (rev t))" by (simp add: hd_rev)
  with False have "dropWhile isSpace (rev t) = rev t" by (cases "rev t") auto
  with a show ?thesis by (simp add: trim_def)
qed












section \<open>Route length as a sum over edges\<close>











lemma reverseSegment_mset:
  assumes "i \<le> j + 1"
  shows "mset (reverseSegment r i j) = mset r"
proof -
  have "drop (j + 1) r = drop (j + 1 - i) (drop i r)" using assms by simp
  then have "reverseSegment r i j =
      take i r @ rev (take (j + 1 - i) (drop i r)) @ drop (j + 1 - i) (drop i r)"
    by (simp add: reverseSegment_def)
  then have "mset (reverseSegment r i j) =
      mset (take i r) + (mset (take (j + 1 - i) (drop i r)) + mset (drop (j + 1 - i) (drop i r)))"
    by simp
  also have "\<dots> = mset (take i r) + mset (drop i r)"
    by (simp only: union_code append_take_drop_id)
  also have "\<dots> = mset r"
    by (simp only: union_code append_take_drop_id)
  finally show ?thesis .
qed


section \<open>Local search does not lengthen a route\<close>

lemma fold_invariant:
  assumes "P s" and "\<And>x s. x \<in> set xs \<Longrightarrow> P s \<Longrightarrow> P (f x s)"
  shows "P (fold f xs s)"
  using assms by (induction xs arbitrary: s) auto












section \<open>Properties of the distance matrix\<close>






lemma list_update_set_subset: "set (xs[i := v]) \<subseteq> insert v (set xs)"
  by (rule set_update_subset_insert)

















section \<open>Nearest neighbour\<close>

lemma isFirstMinimum_single: "isFirstMinimum f [x] x"
  by (simp add: isFirstMinimum_def)

lemma isFirstMinimum_in_set: "isFirstMinimum f xs x \<Longrightarrow> x \<in> set xs"
  by (auto simp: isFirstMinimum_def)

lemma isFirstMinimum_snoc_less:
  assumes "isFirstMinimum f pre b" and "f y < f b"
  shows "isFirstMinimum f (pre @ [y]) y"
proof -
  from assms(1) have le: "\<forall>j < length pre. f b \<le> f (pre ! j)"
    by (auto simp: isFirstMinimum_def)
  have "\<forall>j < length pre. f y < f (pre ! j)"
  proof (intro allI impI)
    fix j assume "j < length pre"
    with le have "f b \<le> f (pre ! j)" by simp
    with assms(2) show "f y < f (pre ! j)" by simp
  qed
  then have a: "\<forall>j \<in> {..< length pre}. f y < f ((pre @ [y]) ! j)"
    by (simp add: nth_append)
  have b: "\<forall>j \<in> {..< length (pre @ [y])}. f y \<le> f ((pre @ [y]) ! j)"
  proof
    fix j assume "j \<in> {..< length (pre @ [y])}"
    then have "j < length pre \<or> j = length pre" by auto
    then show "f y \<le> f ((pre @ [y]) ! j)"
      using a by (auto simp: nth_append less_imp_le)
  qed
  show ?thesis
    unfolding isFirstMinimum_def
    by (rule bexI [of _ "length pre"]) (use a b in simp_all)
qed

lemma isFirstMinimum_snoc_keep:
  assumes "isFirstMinimum f pre b" and "\<not> f y < f b"
  shows "isFirstMinimum f (pre @ [y]) b"
proof -
  from assms(1) obtain k where k: "k < length pre" "pre ! k = b"
    and le: "\<forall>j < length pre. f b \<le> f (pre ! j)"
    and lt: "\<forall>j < k. f b < f (pre ! j)"
    by (auto simp: isFirstMinimum_def)
  have 1: "(pre @ [y]) ! k = b" using k by (simp add: nth_append)
  have 2: "\<forall>j \<in> {..< length (pre @ [y])}. f b \<le> f ((pre @ [y]) ! j)"
  proof
    fix j assume "j \<in> {..< length (pre @ [y])}"
    then have "j < length pre \<or> j = length pre" by auto
    then show "f b \<le> f ((pre @ [y]) ! j)"
      using le assms(2) by (auto simp: nth_append)
  qed
  have 3: "\<forall>j \<in> {..< k}. f b < f ((pre @ [y]) ! j)"
    using lt k by (simp add: nth_append)
  show ?thesis
    unfolding isFirstMinimum_def
    by (rule bexI [of _ k]) (use k 1 2 3 in simp_all)
qed

lemma fold_first_minimum:
  assumes "isFirstMinimum f pre b"
  shows "isFirstMinimum f (pre @ ys)
           (fst (fold (\<lambda>c (best, bound). (let distance = f c
                                         in if lessThanBound distance bound then (c, Some distance)
                                            else (best, bound)))
                      ys (b, Some (f b))))"
  using assms
proof (induction ys arbitrary: pre b)
  case Nil
  then show ?case by simp
next
  case (Cons y ys)
  show ?case
  proof (cases "f y < f b")
    case True
    from isFirstMinimum_snoc_less [OF Cons.prems True]
    have "isFirstMinimum f (pre @ [y]) y" .
    from Cons.IH [OF this] True show ?thesis by (simp add: lessThanBound_def)
  next
    case False
    from isFirstMinimum_snoc_keep [OF Cons.prems False]
    have "isFirstMinimum f (pre @ [y]) b" .
    from Cons.IH [OF this] False show ?thesis by (simp add: lessThanBound_def)
  qed
qed

lemma nearestUnvisited_first_minimum:
  assumes "unvisited \<noteq> []"
  shows "isFirstMinimum (candidateDistance orig m current) unvisited
           (nearestUnvisited orig m current unvisited)"
proof -
  obtain x xs where u: "unvisited = x # xs" using assms by (cases unvisited) auto
  let ?f = "candidateDistance orig m current"
  from fold_first_minimum [OF isFirstMinimum_single, of ?f x xs]
  show ?thesis
    by (simp add: u nearestUnvisited_def lessThanBound_def)
qed

lemma findIndex_eq_Some:
  "findIndex P xs = Some i \<longleftrightarrow> i < length xs \<and> P (xs ! i) \<and> (\<forall>j < i. \<not> P (xs ! j))"
proof (induction xs arbitrary: i)
  case Nil
  then show ?case by simp
next
  case (Cons x xs)
  show ?case
  proof (cases "P x")
    case True
    then show ?thesis by (cases i) auto
  next
    case False
    show ?thesis
    proof (cases i)
      case 0
      with False show ?thesis by (auto split: option.splits)
    next
      case (Suc i')
      have "(\<forall>j < Suc i'. \<not> P ((x # xs) ! j)) \<longleftrightarrow> (\<forall>j < i'. \<not> P (xs ! j))"
        using False by (auto simp: less_Suc_eq_0_disj)
      with Cons.IH [of i'] False Suc show ?thesis by (auto split: option.splits)
    qed
  qed
qed

lemma findIndex_eq_None: "findIndex P xs = None \<longleftrightarrow> (\<forall>x \<in> set xs. \<not> P x)"
  by (induction xs) (auto split: option.splits)

lemma spliceIndexOf_remove1: "x \<in> set xs \<Longrightarrow> spliceIndexOf x xs = remove1 x xs"
proof (induction xs)
  case Nil
  then show ?case by simp
next
  case (Cons y ys)
  show ?case
  proof (cases "y = x")
    case True
    then show ?thesis by (simp add: spliceIndexOf_def)
  next
    case False
    with Cons have "spliceIndexOf x ys = remove1 x ys" by simp
    moreover from False Cons.prems have "x \<in> set ys" by simp
    then obtain i where "findIndex (\<lambda>y. y = x) ys = Some i"
      using findIndex_eq_None [of "\<lambda>y. y = x" ys] by (cases "findIndex (\<lambda>y. y = x) ys") auto
    ultimately show ?thesis using False by (simp add: spliceIndexOf_def)
  qed
qed

lemma nearestNeighborLoop_chain:
  "\<exists>rest. nearestNeighborLoop orig m current unvisited route = route @ rest \<and>
          greedyChain (candidateDistance orig m) current unvisited rest"
proof (induction orig m current unvisited route rule: nearestNeighborLoop.induct)
  case (1 orig m current unvisited route)
  show ?case
  proof (cases "0 < length unvisited")
    case False
    then show ?thesis by (subst nearestNeighborLoop.simps) simp
  next
    case True
    define n where "n = nearestUnvisited orig m current unvisited"
    from True have fm: "isFirstMinimum (candidateDistance orig m current) unvisited n"
      unfolding n_def by (intro nearestUnvisited_first_minimum) auto
    then have sp: "spliceIndexOf n unvisited = remove1 n unvisited"
      by (intro spliceIndexOf_remove1 isFirstMinimum_in_set)
    from "1.IH" [OF True n_def [symmetric, THEN sym]] obtain rest where
      r: "nearestNeighborLoop orig m n (spliceIndexOf n unvisited) (route @ [n]) = (route @ [n]) @ rest"
      and c: "greedyChain (candidateDistance orig m) n (spliceIndexOf n unvisited) rest"
      unfolding n_def by blast
    have "nearestNeighborLoop orig m current unvisited route = route @ (n # rest)"
      using True r by (subst nearestNeighborLoop.simps) (simp add: Let_def n_def)
    moreover have "greedyChain (candidateDistance orig m) current unvisited (n # rest)"
      using fm c sp by simp
    ultimately show ?thesis by blast
  qed
qed

lemma startingPoint_isStartingGroup:
  assumes "addresses \<noteq> []"
  shows "isStartingGroup addresses start (startingPoint addresses start)"
proof (cases start)
  case None
  then show ?thesis by (simp add: isStartingGroup_def startingPoint_def)
next
  case (Some s)
  show ?thesis
  proof (cases "find (nearStart s) addresses")
    case None
    then have "\<not> (\<exists>a \<in> set addresses. nearStart s a)" by (simp add: find_None_iff)
    with None Some show ?thesis by (simp add: isStartingGroup_def startingPoint_def)
  next
    case (Some a)
    then obtain k where k: "k < length addresses" "nearStart s (addresses ! k)" "a = addresses ! k"
      "\<forall>j < k. \<not> nearStart s (addresses ! j)"
      by (auto simp: find_Some_iff)
    then have ex: "\<exists>a \<in> set addresses. nearStart s a" by auto
    have "\<exists>k \<in> {..< length addresses}. addresses ! k = a \<and> nearStart s a \<and>
                  (\<forall>j \<in> {..< k}. \<not> nearStart s (addresses ! j))"
      by (rule bexI [of _ k]) (use k in auto)
    with ex Some \<open>start = Some s\<close> show ?thesis
      by (simp add: isStartingGroup_def startingPoint_def)
  qed
qed

lemma startingPoint_in_set: "addresses \<noteq> [] \<Longrightarrow> startingPoint addresses start \<in> set addresses"
  by (auto simp: startingPoint_def find_Some_iff split: option.splits)

lemma nearestNeighborWithMatrix_chain:
  "if length addresses \<le> 1 then nearestNeighborWithMatrix orig addresses m start = addresses
   else (\<exists>g rest. nearestNeighborWithMatrix orig addresses m start = g # rest \<and>
                  isStartingGroup addresses start g \<and>
                  greedyChain (candidateDistance orig m) g (remove1 g addresses) rest)"
proof (cases "length addresses \<le> 1")
  case True
  then show ?thesis by (cases addresses) (auto simp: nearestNeighborWithMatrix_def)
next
  case False
  then have ne: "addresses \<noteq> []" by auto
  define g where "g = startingPoint addresses start"
  have sp: "spliceIndexOf g addresses = remove1 g addresses"
    unfolding g_def by (intro spliceIndexOf_remove1 startingPoint_in_set ne)
  from nearestNeighborLoop_chain [of orig m g "remove1 g addresses" "[g]"] obtain rest where
    "nearestNeighborLoop orig m g (remove1 g addresses) [g] = [g] @ rest"
    and c: "greedyChain (candidateDistance orig m) g (remove1 g addresses) rest" by blast
  then have "nearestNeighborWithMatrix orig addresses m start = g # rest"
    using False sp ne by (simp add: nearestNeighborWithMatrix_def g_def [symmetric] Let_def)
  moreover have "isStartingGroup addresses start g"
    unfolding g_def by (rule startingPoint_isStartingGroup [OF ne])
  ultimately show ?thesis using False c by auto
qed

text \<open>
  Claim C5, as amended. \<open>nearestNeighborWithMatrix\<close> returns a list of at most one
  group as it is. Otherwise it starts from the first group, in input order, whose
  latitude and longitude are both within 0.001 degrees of the start coordinate,
  when a start is given and there is such a group, and from the first group if
  not; then it repeatedly appends the unvisited group at minimum distance from the
  current end of the tour, the earliest in input order among equals. The distance
  is the matrix cell when both groups have an index and the cell is not 0, and the
  great-circle distance otherwise.
\<close>

theorem nearestNeighbor_greedy_chain:
  "if length addresses \<le> 1 then nearestNeighborWithMatrix orig addresses m start = addresses
   else (\<exists>g rest. nearestNeighborWithMatrix orig addresses m start = g # rest \<and>
                  isStartingGroup addresses start g \<and>
                  greedyChain (candidateDistance orig m) g (remove1 g addresses) rest)"
  by (rule nearestNeighborWithMatrix_chain)

lemma calculateDistance_equator:
  assumes "0 \<le> x" and "x < 180"
  shows "calculateDistance 0 0 0 x = 6371 * toRadians x"
proof -
  define t where "t = toRadians x / 2"
  have t0: "0 \<le> t" using assms(1) by (simp add: t_def toRadians_def)
  have "x * (pi / 180) < 180 * (pi / 180)" using assms(2) by (simp add: pi_gt_zero)
  then have t1: "t < pi / 2" by (simp add: t_def toRadians_def)
  have s: "0 \<le> sin t" using t0 t1 by (intro sin_ge_zero) (auto simp: pi_gt_zero)
  have c: "0 < cos t" using t0 t1 by (intro cos_gt_zero_pi) (auto simp: pi_gt_zero)
  have a: "sqrt (sin t * sin t) = sin t" using s by simp
  have "1 - sin t * sin t = cos t * cos t"
    using sin_cos_squared_add [of t] by (simp add: power2_eq_square)
  then have b: "sqrt (1 - sin t * sin t) = cos t" using c by simp
  have "atan2 (sin t) (cos t) = arctan (tan t)" using c by (simp add: atan2_def tan_def)
  also have "\<dots> = t" using t0 t1 by (intro arctan_tan) (auto simp: pi_gt_zero)
  finally have at: "atan2 (sin t) (cos t) = t" .
  have "calculateDistance 0 0 0 x =
      6371 * (2 * atan2 (sqrt (sin t * sin t)) (sqrt (1 - sin t * sin t)))"
    unfolding calculateDistance_def Let_def t_def toRadians_def by simp
  also have "\<dots> = 6371 * (2 * t)" by (simp only: a b at)
  finally show ?thesis by (simp add: t_def)
qed

text \<open>
  Claim C5 as stated fails at the start. The start is where the second stop is;
  the first stop is 0.0005 degrees away from it, about 55 metres, which is within
  the tolerance, and it comes first in the list. The tour starts at the first stop,
  not at the nearest one.
\<close>

theorem nearestNeighbor_start_counterexample:
  "hd (nearestNeighborWithMatrix (Some quayStops) quayStops quayMatrix
         (Some \<lparr> loc_latitude = 0, loc_longitude = 0 \<rparr>)) = quayStops ! 0 \<and>
   calculateDistance 0 0 (lat (quayStops ! 1)) (lon (quayStops ! 1)) <
   calculateDistance 0 0 (lat (quayStops ! 0)) (lon (quayStops ! 0))"
proof
  show "hd (nearestNeighborWithMatrix (Some quayStops) quayStops quayMatrix
         (Some \<lparr> loc_latitude = 0, loc_longitude = 0 \<rparr>)) = quayStops ! 0"
    by code_simp
  have "calculateDistance 0 0 0 (1 / 2000) = 6371 * toRadians (1 / 2000)"
    by (rule calculateDistance_equator) simp_all
  moreover have "0 < 6371 * toRadians (1 / 2000)" by (simp add: toRadians_def pi_gt_zero)
  ultimately have "calculateDistance 0 0 0 0 < calculateDistance 0 0 0 (1 / 2000)"
    by (simp only: calculateDistance_same)
  then show "calculateDistance 0 0 (lat (quayStops ! 1)) (lon (quayStops ! 1)) <
   calculateDistance 0 0 (lat (quayStops ! 0)) (lon (quayStops ! 0))"
    by (simp add: quayStops_def stopAt_def)
qed

text \<open>The amended claim on four stops with a start next to the third.\<close>

theorem nearestNeighbor_greedy_chain_witness:
  "\<exists>g rest. nearestNeighborWithMatrix (Some fourStops) fourStops symmetricMatrix
               (Some \<lparr> loc_latitude = 0, loc_longitude = 20004 / 10000 \<rparr>) = g # rest \<and>
            isStartingGroup fourStops (Some \<lparr> loc_latitude = 0, loc_longitude = 20004 / 10000 \<rparr>) g \<and>
            greedyChain (candidateDistance (Some fourStops) symmetricMatrix) g (remove1 g fourStops) rest"
proof -
  have "\<not> length fourStops \<le> 1" by (simp add: fourStops_def)
  with nearestNeighbor_greedy_chain [of fourStops "Some fourStops" symmetricMatrix
      "Some \<lparr> loc_latitude = 0, loc_longitude = 20004 / 10000 \<rparr>"]
  show ?thesis by simp
qed

section \<open>The approximate heuristic\<close>

lemma greedyChain_mset: "greedyChain d current unvisited rest \<Longrightarrow> mset rest = mset unvisited"
proof (induction rest arbitrary: current unvisited)
  case Nil
  then show ?case by simp
next
  case (Cons n rest)
  then have "n \<in> set unvisited" and "mset rest = mset (remove1 n unvisited)"
    by (auto dest: isFirstMinimum_in_set)
  then show ?case by simp
qed

lemma nearestNeighborWithMatrix_mset:
  "mset (nearestNeighborWithMatrix orig addresses m start) = mset addresses"
proof (cases "length addresses \<le> 1")
  case True
  with nearestNeighborWithMatrix_chain [of addresses orig m start] show ?thesis by simp
next
  case False
  with nearestNeighborWithMatrix_chain [of addresses orig m start] obtain g rest where
    r: "nearestNeighborWithMatrix orig addresses m start = g # rest"
    and s: "isStartingGroup addresses start g"
    and c: "greedyChain (candidateDistance orig m) g (remove1 g addresses) rest" by auto
  from False have ne: "addresses \<noteq> []" by auto
  have "g \<in> set addresses"
    using s ne by (auto simp: isStartingGroup_def split: option.splits if_splits)
  with greedyChain_mset [OF c] r show ?thesis by simp
qed

lemma nearestNeighborWithMatrix_length:
  "length (nearestNeighborWithMatrix orig addresses m start) = length addresses"
  using nearestNeighborWithMatrix_mset [of orig addresses m start] by (metis size_mset)

lemma twoOptPasses_Suc:
  "twoOptPasses orig m (Suc k) r = twoOptPasses orig m k (fst (twoOptPass orig m r))"
  unfolding twoOptPasses_def by (simp only: funpow_Suc_right o_apply)

lemma twoOptLoop_passes:
  "iterations < maxIterations \<Longrightarrow>
   \<exists>k \<in> {1 .. maxIterations - iterations}.
      twoOptLoop orig m maxIterations iterations True r = twoOptPasses orig m k r \<and>
      (\<forall>j < k - 1. snd (twoOptPass orig m (twoOptPasses orig m j r))) \<and>
      (k = maxIterations - iterations \<or> \<not> snd (twoOptPass orig m (twoOptPasses orig m (k - 1) r)))"
proof (induction "maxIterations - iterations" arbitrary: iterations r)
  case 0
  then show ?case by simp
next
  case (Suc n)
  let ?st = "twoOptPass orig m r"
  have unfold: "twoOptLoop orig m maxIterations iterations True r =
      twoOptLoop orig m maxIterations (iterations + 1) (snd ?st) (fst ?st)"
    using Suc.prems by (subst twoOptLoop.simps) (simp add: Let_def)
  show ?case
  proof (cases "snd ?st \<and> iterations + 1 < maxIterations")
    case False
    then have "twoOptLoop orig m maxIterations (iterations + 1) (snd ?st) (fst ?st) = fst ?st"
      by (subst twoOptLoop.simps) auto
    with unfold have e: "twoOptLoop orig m maxIterations iterations True r = twoOptPasses orig m 1 r"
      by (simp add: twoOptPasses_def)
    have "1 = maxIterations - iterations \<or> \<not> snd (twoOptPass orig m (twoOptPasses orig m (1 - 1) r))"
      using False Suc.prems by (auto simp: twoOptPasses_def)
    with e Suc.prems show ?thesis by (intro bexI [of _ 1]) auto
  next
    case True
    then have f: "snd ?st" and lt: "iterations + 1 < maxIterations" by auto
    have n: "n = maxIterations - (iterations + 1)" using Suc.hyps(2) by simp
    from Suc.hyps(1) [OF n lt, of "fst ?st"] obtain k where
      k: "1 \<le> k" "k \<le> maxIterations - (iterations + 1)"
      and e: "twoOptLoop orig m maxIterations (iterations + 1) True (fst ?st) =
              twoOptPasses orig m k (fst ?st)"
      and a: "\<forall>j < k - 1. snd (twoOptPass orig m (twoOptPasses orig m j (fst ?st)))"
      and l: "k = maxIterations - (iterations + 1) \<or>
              \<not> snd (twoOptPass orig m (twoOptPasses orig m (k - 1) (fst ?st)))"
      by auto
    have e': "twoOptLoop orig m maxIterations iterations True r = twoOptPasses orig m (Suc k) r"
      using unfold f e by (simp add: twoOptPasses_Suc)
    have a': "\<forall>j < Suc k - 1. snd (twoOptPass orig m (twoOptPasses orig m j r))"
    proof (intro allI impI)
      fix j assume j: "j < Suc k - 1"
      show "snd (twoOptPass orig m (twoOptPasses orig m j r))"
      proof (cases j)
        case 0
        with f show ?thesis by (simp add: twoOptPasses_def)
      next
        case (Suc j')
        with j have "j' < k - 1" by simp
        with a Suc show ?thesis by (simp add: twoOptPasses_Suc)
      qed
    qed
    have "twoOptPasses orig m (Suc k - 1) r = twoOptPasses orig m (k - 1) (fst ?st)"
      using k(1) twoOptPasses_Suc [of orig m "k - 1" r] by simp
    with l k have l': "Suc k = maxIterations - iterations \<or>
              \<not> snd (twoOptPass orig m (twoOptPasses orig m (Suc k - 1) r))"
      by auto
    show ?thesis
      by (rule bexI [of _ "Suc k"]) (use e' a' l' k lt in auto)
  qed
qed

text \<open>
  Claim C7, as amended. For at most 5 groups the approximate heuristic is the
  greedy-edge heuristic. For more it is the nearest-neighbour route followed by one
  call of the 2-opt improver, which runs \<open>k\<close> full passes with
  \<open>1 \<le> k \<le> min 20 n\<close>: every pass before the last accepted a move, and the
  last one accepted none unless it is pass number \<open>min 20 n\<close>.
\<close>

theorem approximate_heuristic_cases:
  "if length addresses \<le> 5
   then christofidesApproximation orig addresses m start = greedyTSP orig addresses m start
   else (\<exists>k \<in> {1 .. min 20 (length addresses)}.
           christofidesApproximation orig addresses m start =
             twoOptPasses orig m k (nearestNeighborWithMatrix orig addresses m start) \<and>
           (\<forall>j < k - 1. snd (twoOptPass orig m
                (twoOptPasses orig m j (nearestNeighborWithMatrix orig addresses m start)))) \<and>
           (k = min 20 (length addresses) \<or>
            \<not> snd (twoOptPass orig m
                (twoOptPasses orig m (k - 1) (nearestNeighborWithMatrix orig addresses m start)))))"
proof (cases "length addresses \<le> 5")
  case True
  then show ?thesis by (simp add: christofidesApproximation_def)
next
  case False
  let ?r = "nearestNeighborWithMatrix orig addresses m start"
  have len: "length ?r = length addresses" by (rule nearestNeighborWithMatrix_length)
  have "christofidesApproximation orig addresses m start =
      twoOptLoop orig m (min 20 (length addresses)) 0 True ?r"
    using False len by (simp add: christofidesApproximation_def apply2OptImprovement_def)
  moreover have "0 < min 20 (length addresses)" using False by (cases addresses) simp_all
  from twoOptLoop_passes [OF this, of orig m ?r]
  have "\<exists>k \<in> {1 .. min 20 (length addresses)}.
      twoOptLoop orig m (min 20 (length addresses)) 0 True ?r = twoOptPasses orig m k ?r \<and>
      (\<forall>j < k - 1. snd (twoOptPass orig m (twoOptPasses orig m j ?r))) \<and>
      (k = min 20 (length addresses) \<or> \<not> snd (twoOptPass orig m (twoOptPasses orig m (k - 1) ?r)))"
    by simp
  ultimately show ?thesis using False by simp
qed

text \<open>
  Claim C7 as stated fails for more than 5 groups: here the nearest-neighbour
  route is 0, 1, 2, 4, 5, 3, one pass makes it 0, 1, 2, 5, 4, 3, and the heuristic
  returns 0, 2, 1, 5, 4, 3, which the second pass found.
\<close>

theorem single_pass_counterexample:
  "christofidesApproximation (Some sixStops) sixStops sixMatrix None \<noteq>
   fst (twoOptPass (Some sixStops) sixMatrix
          (nearestNeighborWithMatrix (Some sixStops) sixStops sixMatrix None))"
  by code_simp

text \<open>The amended claim on four groups and on six.\<close>

theorem approximate_heuristic_cases_witness:
  "christofidesApproximation (Some fourStops) fourStops symmetricMatrix None =
     greedyTSP (Some fourStops) fourStops symmetricMatrix None \<and>
   (\<exists>k \<in> {1 .. 6}.
      christofidesApproximation (Some sixStops) sixStops sixMatrix None =
        twoOptPasses (Some sixStops) sixMatrix k
          (nearestNeighborWithMatrix (Some sixStops) sixStops sixMatrix None))"
proof -
  have 4: "length fourStops = 4" by (simp add: fourStops_def)
  have 6: "length sixStops = 6" by (simp add: sixStops_def)
  from approximate_heuristic_cases [of fourStops "Some fourStops" symmetricMatrix None] 4
  have a: "christofidesApproximation (Some fourStops) fourStops symmetricMatrix None =
     greedyTSP (Some fourStops) fourStops symmetricMatrix None" by simp
  from approximate_heuristic_cases [of sixStops "Some sixStops" sixMatrix None] 6
  have "\<exists>k \<in> {1 .. 6}.
      christofidesApproximation (Some sixStops) sixStops sixMatrix None =
        twoOptPasses (Some sixStops) sixMatrix k
          (nearestNeighborWithMatrix (Some sixStops) sixStops sixMatrix None)"
    by auto
  with a show ?thesis by simp
qed

section \<open>Tiers and determinism\<close>

lemma advancedTSPOptimization_least:
  "leastOfThree (\<lambda>r. calculateTotalDistance orig r (Some m))
     (nearestNeighborWithMatrix orig addresses m start)
     (greedyTSP orig addresses m start)
     (christofidesApproximation orig addresses m start)
     (advancedTSPOptimization orig addresses m start)"
  by (auto simp: advancedTSPOptimization_def leastOfThree_def Let_def)



lemma length_elmStops: "length (elmStops n) = n"
  by (simp add: elmStops_def)




section \<open>Local search keeps the stops of a route\<close>

lemma twoOptStep_mset:
  assumes "i \<le> j"
  shows "mset (fst (twoOptStep orig m i j st)) = mset (fst st)"
  using assms by (simp add: twoOptStep_def Let_def reverseSegment_mset)

lemma twoOptPass_mset: "mset (fst (twoOptPass orig m r)) = mset r"
proof -
  have "mset (fst (fold (\<lambda>i st. fold (\<lambda>j st'. twoOptStep orig m i j st') [i + 1 ..< n - 1] st)
              [1 ..< n - 2] (r, False))) = mset r" for n
  proof (rule fold_invariant [where P = "\<lambda>st. mset (fst st) = mset r"])
    show "mset (fst (r, False)) = mset r" by simp
  next
    fix i and st :: "'a Address_scheme list \<times> bool"
    assume "mset (fst st) = mset r"
    then show "mset (fst (fold (\<lambda>j st'. twoOptStep orig m i j st') [i + 1 ..< n - 1] st)) = mset r"
    proof (rule fold_invariant [where P = "\<lambda>st. mset (fst st) = mset r"])
      fix j and st' :: "'a Address_scheme list \<times> bool"
      assume "j \<in> set [i + 1 ..< n - 1]" and "mset (fst st') = mset r"
      then show "mset (fst (twoOptStep orig m i j st')) = mset r"
        by (simp add: twoOptStep_mset)
    qed
  qed
  then show ?thesis by (simp add: twoOptPass_def Let_def)
qed

lemma twoOptLoop_mset:
  "mset (twoOptLoop orig m maxIterations iterations found r) = mset r"
proof (induction orig m maxIterations iterations found r rule: twoOptLoop.induct)
  case (1 orig m maxIterations iterations improvementFound improved)
  show ?case
  proof (cases "improvementFound \<and> iterations < maxIterations")
    case True
    from "1.IH" [OF True refl] twoOptPass_mset [of orig m improved] True
    show ?thesis by (subst twoOptLoop.simps) (simp add: Let_def)
  next
    case False
    show ?thesis by (subst twoOptLoop.simps) (simp only: False if_False)
  qed
qed

lemma apply2OptImprovement_mset: "mset (apply2OptImprovement orig route m) = mset route"
  by (simp add: apply2OptImprovement_def twoOptLoop_mset)

lemma withoutIndex_enumerate:
  "map snd (filter (\<lambda>(idx, x). idx \<noteq> k + i) (enumerate k xs)) = take i xs @ drop (Suc i) xs"
proof (induction xs arbitrary: k i)
  case Nil
  then show ?case by simp
next
  case (Cons x xs)
  show ?case
  proof (cases i)
    case 0
    have "filter (\<lambda>(idx, x). idx \<noteq> k) (enumerate (Suc k) xs) = enumerate (Suc k) xs"
      by (rule filter_True) (auto simp: in_set_enumerate_eq)
    with 0 show ?thesis by simp
  next
    case (Suc i')
    from Cons.IH [of "Suc k" i'] Suc show ?thesis by simp
  qed
qed

lemma withoutIndex_take_drop: "withoutIndex xs i = take i xs @ drop (Suc i) xs"
  using withoutIndex_enumerate [of 0 i xs] by (simp add: withoutIndex_def)

lemma reinsertions_mset:
  assumes "i < length xs" and "r \<in> set (reinsertions xs i)"
  shows "mset r = mset xs"
proof -
  let ?w = "withoutIndex xs i"
  from assms(2) obtain j where r: "r = take j ?w @ [xs ! i] @ drop j ?w"
    by (auto simp: reinsertions_def Let_def)
  have "mset r = mset (take j ?w) + mset (drop j ?w) + {#xs ! i#}" unfolding r by simp
  also have "\<dots> = mset (take j ?w @ drop j ?w) + {#xs ! i#}" by (simp only: mset_append)
  also have "\<dots> = mset ?w + {#xs ! i#}" by (simp only: append_take_drop_id)
  also have "\<dots> = mset (take i xs @ xs ! i # drop (Suc i) xs)"
    by (simp add: withoutIndex_take_drop)
  also have "take i xs @ xs ! i # drop (Suc i) xs = xs"
    using assms(1) by (simp add: id_take_nth_drop [symmetric])
  finally show ?thesis .
qed

lemma firstBetter_mset:
  "i < length improved \<Longrightarrow> firstBetter orig m improved i = Some newRoute \<Longrightarrow>
   mset newRoute = mset improved"
  by (auto simp: firstBetter_def find_Some_iff intro!: reinsertions_mset [of i improved])

lemma orOptSweep_mset:
  "\<forall>i \<in> set is. i < length improved \<Longrightarrow> orOptSweep orig m improved is = Some newRoute \<Longrightarrow>
   mset newRoute = mset improved"
  by (induction "is") (auto split: option.splits dest: firstBetter_mset)

lemma orOptLoop_mset:
  "mset (orOptLoop orig m maxIterations iterations found r) = mset r"
proof (induction orig m maxIterations iterations found r rule: orOptLoop.induct)
  case (1 orig m maxIterations iterations improvementFound improved)
  show ?case
  proof (cases "improvementFound \<and> iterations < maxIterations")
    case True
    show ?thesis
    proof (cases "orOptSweep orig m improved [1 ..< length improved - 1]")
      case None
      with True "1.IH"(1) [OF True None] show ?thesis
        by (subst orOptLoop.simps) simp
    next
      case (Some newRoute)
      have "mset newRoute = mset improved"
        by (rule orOptSweep_mset [OF _ Some]) auto
      with True Some "1.IH"(2) [OF True Some] show ?thesis
        by (subst orOptLoop.simps) simp
    qed
  next
    case False
    show ?thesis by (subst orOptLoop.simps) (simp only: False if_False)
  qed
qed

lemma applyOrOptImprovement_mset: "mset (applyOrOptImprovement orig route m) = mset route"
  by (simp add: applyOrOptImprovement_def orOptLoop_mset)

lemma localSearchLoop_mset:
  "mset (localSearchLoop orig m maxIterations iterations keep r) = mset r"
proof (induction orig m maxIterations iterations keep r rule: localSearchLoop.induct)
  case (1 orig m maxIterations iterations keepImproving improved)
  show ?case
  proof (cases "keepImproving \<and> iterations < maxIterations")
    case True
    from "1.IH" [OF True refl refl refl refl] True show ?thesis
      by (subst localSearchLoop.simps)
         (simp add: Let_def applyOrOptImprovement_mset apply2OptImprovement_mset)
  next
    case False
    show ?thesis by (subst localSearchLoop.simps) (simp only: False if_False)
  qed
qed

lemma applyLocalSearchImprovements_mset:
  "mset (applyLocalSearchImprovements orig route m) = mset route"
  by (simp add: applyLocalSearchImprovements_def localSearchLoop_mset)

section \<open>The cluster tier loses stops\<close>

lemma mapPush_new:
  "k \<notin> fst ` set groups \<Longrightarrow> mapPush groups k a = groups @ [(k, [a])]"
  by (induction groups) auto

lemma locationGroups_fold_distinct:
  "distinct (map key xs) \<Longrightarrow> fst ` set acc \<inter> key ` set xs = {} \<Longrightarrow>
   fold (\<lambda>a groups. mapPush groups (key a) a) xs acc = acc @ map (\<lambda>a. (key a, [a])) xs"
proof (induction xs arbitrary: acc)
  case Nil
  then show ?case by simp
next
  case (Cons x xs)
  from Cons.prems(2) have n: "key x \<notin> fst ` set acc" by auto
  have d: "distinct (map key xs)" using Cons.prems(1) by simp
  have "fst ` set (acc @ [(key x, [x])]) \<inter> key ` set xs = {}"
    using Cons.prems by auto
  from Cons.IH [OF d this] n show ?case by (simp add: mapPush_new)
qed

lemma groupSameLocationAddresses_distinct:
  assumes "distinct (map (\<lambda>a. normalizeAddressForGrouping (address a)) addresses)"
  shows "groupSameLocationAddresses addresses =
         map (\<lambda>a. Address.extend a \<lparr> groupedAddresses = None \<rparr>) addresses"
proof -
  have "locationGroups addresses =
      map (\<lambda>a. (normalizeAddressForGrouping (address a), [a])) addresses"
    unfolding locationGroups_def
    using locationGroups_fold_distinct [of "\<lambda>a. normalizeAddressForGrouping (address a)" addresses "[]"] assms
    by simp
  then show ?thesis by (simp add: groupSameLocationAddresses_def comp_def)
qed

lemma natToString_digits: "\<forall>c \<in> set (natToString n). isDigit c"
proof (induction n rule: natToString.induct)
  case (1 n)
  show ?case
  proof (cases "n < 10")
    case True
    then show ?thesis by (subst natToString.simps) (simp add: isDigit_def)
  next
    case False
    have "n mod 10 < 10" by simp
    then have "isDigit (char_of (48 + n mod 10))" by (simp add: isDigit_def)
    with 1 False show ?thesis by (subst natToString.simps) auto
  qed
qed

lemma natToString_nonempty: "natToString n \<noteq> []"
  by (subst natToString.simps) simp

lemma numeralValue_natToString: "numeralValue (natToString n) = n"
proof (induction n rule: natToString.induct)
  case (1 n)
  show ?case
  proof (cases "n < 10")
    case True
    then show ?thesis by (subst natToString.simps) simp
  next
    case False
    have "n mod 10 < 10" by simp
    then have "of_char (char_of (48 + n mod 10) :: char) - 48 = n mod 10" by simp
    with 1 False show ?thesis by (subst natToString.simps) simp
  qed
qed

lemma natToString_inj: "natToString a = natToString b \<Longrightarrow> a = b"
  by (metis numeralValue_natToString)


lemma isDigit_not_space: "isDigit c \<Longrightarrow> \<not> isSpace c"
  by (auto simp: isDigit_def isSpace_def Let_def)

lemma isDigit_lower: "isDigit c \<Longrightarrow> toLowerCaseChar c = c"
  by (auto simp: isDigit_def toLowerCaseChar_def Let_def)

lemma isDigit_no_unit:
  assumes "isDigit c"
  shows "matchUnit (c # cs) = None"
proof -
  have c: "c \<noteq> CHR '',''" "c \<noteq> CHR ''a''" "c \<noteq> CHR ''u''" "c \<noteq> CHR ''s''" "c \<noteq> CHR ''#''"
    using assms by (auto simp: isDigit_def)
  have l: "asciiLower c = c" using assms by (auto simp: isDigit_def asciiLower_def Let_def)
  have p: "asciiLower (CHR ''a'') = CHR ''a''" "asciiLower (CHR ''u'') = CHR ''u''"
    "asciiLower (CHR ''s'') = CHR ''s''" "asciiLower (CHR ''#'') = CHR ''#''"
    by code_simp+
  have "matchAlternatives [''apt'', ''apartment'', ''unit'', ''suite'', ''#''] (c # cs) = None"
    using c by (simp add: l p)
  then show ?thesis
    using c isDigit_not_space [OF assms] by (simp add: matchUnit_def optionalComma_def)
qed

lemma stripUnits_digits:
  "\<forall>c \<in> set ds. isDigit c \<Longrightarrow> stripUnits (ds @ t) = ds @ stripUnits t"
  by (induction ds) (simp_all add: isDigit_no_unit)

lemma collapseSpaces_digits:
  "\<forall>c \<in> set ds. isDigit c \<Longrightarrow> collapseSpaces (ds @ t) = ds @ collapseSpaces t"
  by (induction ds) (simp_all add: isDigit_not_space)

lemma normalize_elm:
  assumes ds: "\<forall>c \<in> set ds. isDigit c" and ne: "ds \<noteq> []"
  shows "normalizeAddressForGrouping (ds @ '' Elm Rd 10'') = ds @ '' elm rd 10''"
proof -
  have low: "toLowerCase '' Elm Rd 10'' = '' elm rd 10''" by code_simp
  have 1: "toLowerCase (ds @ '' Elm Rd 10'') = ds @ '' elm rd 10''"
    using ds low by (simp add: toLowerCase_def isDigit_lower map_idI)
  have "stripUnits '' elm rd 10'' = '' elm rd 10''" by code_simp
  then have 2: "stripUnits (ds @ '' elm rd 10'') = ds @ '' elm rd 10''"
    by (simp add: stripUnits_digits [OF ds])
  have l: "last (ds @ '' elm rd 10'') = CHR ''0''" by simp
  have "\<not> isLetterCI (CHR ''0'')" "\<not> isSpace (CHR ''0'')" by code_simp+
  then have 3: "stripLetterSuffix (ds @ '' elm rd 10'') = ds @ '' elm rd 10''"
    by (intro stripLetterSuffix_no_match) (simp only: l, simp)
  have "collapseSpaces '' elm rd 10'' = '' elm rd 10''" by code_simp
  then have 4: "collapseSpaces (ds @ '' elm rd 10'') = ds @ '' elm rd 10''"
    by (simp add: collapseSpaces_digits [OF ds])
  have "hd (ds @ '' elm rd 10'') = hd ds" using ne by simp
  moreover have "isDigit (hd ds)" using ds ne by simp
  ultimately have h: "\<not> isSpace (hd (ds @ '' elm rd 10''))" by (simp add: isDigit_not_space)
  have 5: "trim (ds @ '' elm rd 10'') = ds @ '' elm rd 10''"
    by (rule trim_fixed) (use h l \<open>\<not> isSpace (CHR ''0'')\<close> in simp)
  show ?thesis
    unfolding normalizeAddressForGrouping_def by (simp only: 1 2 3 4 5)
qed

lemma elmStops_keys:
  "map (\<lambda>a. normalizeAddressForGrouping (address a)) (elmStops n) =
   map (\<lambda>i. natToString i @ '' elm rd 10'') [0 ..< n]"
  by (simp add: elmStops_def stopAt_def comp_def normalize_elm natToString_digits natToString_nonempty)

lemma elmStops_distinct_keys:
  "distinct (map (\<lambda>a. normalizeAddressForGrouping (address a)) (elmStops n))"
  unfolding elmStops_keys
  by (auto simp: distinct_map inj_on_def dest: natToString_inj)

lemma groupSameLocationAddresses_elmStops:
  "groupSameLocationAddresses (elmStops n) =
   map (\<lambda>a. Address.extend a \<lparr> groupedAddresses = None \<rparr>) (elmStops n)"
  by (rule groupSameLocationAddresses_distinct [OF elmStops_distinct_keys])

lemma extend_fields:
  "latitude (Address.extend a x) = latitude a"
  "longitude (Address.extend a x) = longitude a"
  "id_a (Address.extend a x) = id_a a"
  by (cases a; simp add: Address.defs)+

lemma truncate_extend: "Address.truncate (Address.extend a \<lparr> groupedAddresses = None \<rparr>) = a"
  by (cases a) (simp add: Address.defs)

lemma groupedAddresses_extend:
  "groupedAddresses (Address.extend a \<lparr> groupedAddresses = None \<rparr>) = None"
  by (cases a) (simp add: Address.defs)

lemma calculateDistance_equator_west: "calculateDistance 0 x 0 0 = calculateDistance 0 0 0 x"
  by (simp add: calculateDistance_def toRadians_def)

lemma east_west_distance:
  "0 < calculateDistance 0 0 0 (1 / 20000)" "0 < calculateDistance 0 (1 / 20000) 0 0"
proof -
  have "calculateDistance 0 0 0 (1 / 20000) = 6371 * toRadians (1 / 20000)"
    by (rule calculateDistance_equator) simp_all
  moreover have "0 < 6371 * toRadians (1 / 20000)" by (simp add: toRadians_def pi_gt_zero)
  ultimately show "0 < calculateDistance 0 0 0 (1 / 20000)" by simp
  then show "0 < calculateDistance 0 (1 / 20000) 0 0" by (simp only: calculateDistance_equator_west)
qed

lemma upt4: "[0 ..< 4] = [0, 1, 2, 3]"
  by (simp add: upt_rec)

lemma nearestCenter_west: "atWest a \<Longrightarrow> nearestCenter a fourCenters = 0"
  using east_west_distance
  by (simp add: nearestCenter_def fourCenters_def upt4 atWest_def lessThanBound_def
      calculateDistance_same Let_def)

lemma nearestCenter_east: "atEast a \<Longrightarrow> nearestCenter a fourCenters = 1"
  using east_west_distance
  by (simp add: nearestCenter_def fourCenters_def upt4 atEast_def lessThanBound_def
      calculateDistance_same Let_def)

lemma fold_buckets:
  assumes "length cl0 = n" and "\<forall>a \<in> set xs. k a < n"
  shows "fold (\<lambda>a cl. cl[k a := cl ! k a @ [a]]) xs cl0 =
         map (\<lambda>i. cl0 ! i @ filter (\<lambda>a. k a = i) xs) [0 ..< n]"
  using assms
proof (induction xs arbitrary: cl0)
  case Nil
  then have "map (\<lambda>i. cl0 ! i) [0 ..< n] = cl0" by (metis map_nth)
  then show ?case by simp
next
  case (Cons x xs)
  let ?cl1 = "cl0[k x := cl0 ! k x @ [x]]"
  have l: "length ?cl1 = n" using Cons.prems(1) by simp
  have "fold (\<lambda>a cl. cl[k a := cl ! k a @ [a]]) xs ?cl1 =
      map (\<lambda>i. ?cl1 ! i @ filter (\<lambda>a. k a = i) xs) [0 ..< n]"
    by (rule Cons.IH [OF l]) (use Cons.prems(2) in simp)
  also have "\<dots> = map (\<lambda>i. cl0 ! i @ filter (\<lambda>a. k a = i) (x # xs)) [0 ..< n]"
  proof (rule map_cong [OF refl])
    fix i assume "i \<in> set [0 ..< n]"
    then have "i < length cl0" using Cons.prems(1) by simp
    then show "?cl1 ! i @ filter (\<lambda>a. k a = i) xs = cl0 ! i @ filter (\<lambda>a. k a = i) (x # xs)"
      by (cases "i = k x") (simp_all add: nth_list_update)
  qed
  finally show ?case by simp
qed

lemma createSmartClusters_two_points:
  assumes len: "4 < length G"
    and centers: "map (\<lambda>i. (lat (G ! ((i * length G) div 4)), lon (G ! ((i * length G) div 4))))
                      [0 ..< 4] = fourCenters"
    and pts: "\<forall>a \<in> set G. atWest a \<or> atEast a"
    and w: "\<exists>a \<in> set G. atWest a" and e: "\<exists>a \<in> set G. atEast a"
  shows "createSmartClusters G 4 = [filter atWest G, filter atEast G]"
proof -
  have we: "atWest a \<Longrightarrow> \<not> atEast a" for a :: "'a Address_scheme"
    by (auto simp: atWest_def atEast_def)
  have k: "\<forall>a \<in> set G. nearestCenter a fourCenters < 4"
    using pts nearestCenter_west nearestCenter_east by fastforce
  have "fold (\<lambda>a cl. cl[nearestCenter a fourCenters := cl ! nearestCenter a fourCenters @ [a]]) G
          (replicate 4 []) =
        map (\<lambda>i. replicate 4 [] ! i @ filter (\<lambda>a. nearestCenter a fourCenters = i) G) [0 ..< 4]"
    by (rule fold_buckets [OF _ k]) simp
  also have "\<dots> = map (\<lambda>i. filter (\<lambda>a. nearestCenter a fourCenters = i) G) [0 ..< 4]"
    by (rule map_cong [OF refl]) simp
  finally have f: "fold (\<lambda>a cl. cl[nearestCenter a fourCenters := cl ! nearestCenter a fourCenters @ [a]]) G
          (replicate 4 []) = map (\<lambda>i. filter (\<lambda>a. nearestCenter a fourCenters = i) G) [0 ..< 4]" .
  have b0: "filter (\<lambda>a. nearestCenter a fourCenters = 0) G = filter atWest G"
    by (rule filter_cong [OF refl]) (use pts nearestCenter_west nearestCenter_east we in fastforce)
  have b1: "filter (\<lambda>a. nearestCenter a fourCenters = 1) G = filter atEast G"
    by (rule filter_cong [OF refl]) (use pts nearestCenter_west nearestCenter_east we in fastforce)
  have b2: "filter (\<lambda>a. nearestCenter a fourCenters = 2) G = []"
    using pts nearestCenter_west nearestCenter_east by (fastforce simp: filter_empty_conv)
  have b3: "filter (\<lambda>a. nearestCenter a fourCenters = 3) G = []"
    using pts nearestCenter_west nearestCenter_east by (fastforce simp: filter_empty_conv)
  have nw: "filter atWest G \<noteq> []" using w by (simp add: filter_empty_conv)
  have ne: "filter atEast G \<noteq> []" using e by (simp add: filter_empty_conv)
  have "createSmartClusters G 4 =
      filter (\<lambda>cluster. 0 < length cluster)
        (fold (\<lambda>a cl. cl[nearestCenter a fourCenters := cl ! nearestCenter a fourCenters @ [a]]) G
          (replicate 4 []))"
    using len unfolding createSmartClusters_def Let_def centers by simp
  also have "\<dots> = filter (\<lambda>cluster. 0 < length cluster) [filter atWest G, filter atEast G, [], []]"
    unfolding f upt4 by (simp only: list.map b0 b1 b2 b3)
  also have "\<dots> = [filter atWest G, filter atEast G]"
    using nw ne by simp
  finally show ?thesis .
qed

lemma fold_sum_const:
  "\<forall>a \<in> set xs. f a = c \<Longrightarrow> fold (\<lambda>a (s :: real). s + f a) xs s0 = s0 + real (length xs) * c"
  by (induction xs arbitrary: s0) (simp_all add: algebra_simps)

lemma clusterCenter_west:
  assumes "\<forall>a \<in> set cluster. atWest a"
  shows "latitude (clusterCenter cluster) = Some 0 \<and> longitude (clusterCenter cluster) = Some 0"
proof -
  have "\<forall>a \<in> set cluster. or_zero (latitude a) = 0" "\<forall>a \<in> set cluster. or_zero (longitude a) = 0"
    using assms by (auto simp: atWest_def or_zero_def)
  then have "fold (\<lambda>addr sum. sum + or_zero (latitude addr)) cluster 0 = 0 + real (length cluster) * 0"
    "fold (\<lambda>addr sum. sum + or_zero (longitude addr)) cluster 0 = 0 + real (length cluster) * 0"
    by (intro fold_sum_const; simp)+
  then show ?thesis
    by (simp add: clusterCenter_def Let_def)
qed

lemma clusterCenter_east:
  assumes "\<forall>a \<in> set cluster. atEast a" and "cluster \<noteq> []"
  shows "latitude (clusterCenter cluster) = Some 0 \<and>
         longitude (clusterCenter cluster) = Some (1 / 20000)"
proof -
  have "\<forall>a \<in> set cluster. or_zero (latitude a) = 0"
    "\<forall>a \<in> set cluster. or_zero (longitude a) = 1 / 20000"
    using assms(1) by (auto simp: atEast_def or_zero_def)
  then have "fold (\<lambda>addr sum. sum + or_zero (latitude addr)) cluster 0 = 0 + real (length cluster) * 0"
    "fold (\<lambda>addr sum. sum + or_zero (longitude addr)) cluster 0 =
       0 + real (length cluster) * (1 / 20000)"
    by (intro fold_sum_const; simp)+
  then show ?thesis
    using assms(2) by (simp add: clusterCenter_def Let_def)
qed

lemma nearestNeighborTSP_pair: "nearestNeighborTSP [a, b] None = [a, b]"
proof -
  have s1: "spliceIndexOf a [a, b] = [b]" by (simp add: spliceIndexOf_def)
  have s2: "spliceIndexOf b [b] = []" by (simp add: spliceIndexOf_def)
  have n: "findNearestAddress [b] loc = b" for loc
    by (simp add: findNearestAddress_def Let_def)
  have "nearestNeighborTSPLoop b [] [a, b] = [a, b]"
    by (subst nearestNeighborTSPLoop.simps) simp
  then have "nearestNeighborTSPLoop a [b] [a] = [a, b]"
    by (subst nearestNeighborTSPLoop.simps) (simp add: n s2 Let_def)
  then show ?thesis by (simp add: nearestNeighborTSP_def s1 Let_def)
qed

lemma optimizeClusterOrder_duplicates:
  assumes w: "\<forall>a \<in> set W. atWest a" and e: "\<forall>a \<in> set E. atEast a" and ne: "E \<noteq> []"
  shows "optimizeClusterOrder [W, E] m allAddresses None = [W, W]"
proof -
  let ?cw = "clusterCenter W" and ?ce = "clusterCenter E"
  from clusterCenter_west [OF w] have cw: "latitude ?cw = Some 0" "longitude ?cw = Some 0" by simp_all
  from clusterCenter_east [OF e ne] have ce: "latitude ?ce = Some 0" "longitude ?ce = Some (1 / 20000)"
    by simp_all
  have a: "sameCenter ?cw ?cw" by (simp add: sameCenter_def cw or_zero_def)
  have b: "sameCenter ?ce ?cw" by (simp add: sameCenter_def cw ce or_zero_def)
  have fa: "findIndex (sameCenter ?cw) [?cw, ?ce] = Some 0" using a by simp
  have fb: "findIndex (sameCenter ?ce) [?cw, ?ce] = Some 0" using b by simp
  show ?thesis
    by (simp add: optimizeClusterOrder_def Let_def nearestNeighborTSP_pair fa fb
        del: findIndex.simps)
qed

lemma clusterBasedOptimization_two_points:
  assumes len: "length G = 101"
    and centers: "map (\<lambda>i. (lat (G ! ((i * length G) div 4)), lon (G ! ((i * length G) div 4))))
                      [0 ..< 4] = fourCenters"
    and pts: "\<forall>a \<in> set G. atWest a \<or> atEast a"
    and w: "\<exists>a \<in> set G. atWest a" and e: "\<exists>a \<in> set G. atEast a"
  shows "\<exists>W. clusterBasedOptimization orig G m None = W @ W \<and> mset W = mset (filter atWest G)"
proof -
  define cm where "cm = (\<lambda>cluster. extractSubMatrix m (map (\<lambda>addr. findIndex (\<lambda>x. x = addr) G) cluster))"
  define W where "W = nearestNeighborWithMatrix orig (filter atWest G) (cm (filter atWest G)) None"
  define E where "E = nearestNeighborWithMatrix orig (filter atEast G) (cm (filter atEast G)) None"
  have mw: "mset W = mset (filter atWest G)" unfolding W_def by (rule nearestNeighborWithMatrix_mset)
  have me: "mset E = mset (filter atEast G)" unfolding E_def by (rule nearestNeighborWithMatrix_mset)
  have "set W = set (filter atWest G)" using mw by (rule mset_eq_setD)
  then have ww: "\<forall>a \<in> set W. atWest a" by simp
  have se: "set E = set (filter atEast G)" using me by (rule mset_eq_setD)
  then have ee: "\<forall>a \<in> set E. atEast a" by simp
  have "set E \<noteq> {}" using se e by auto
  then have ne: "E \<noteq> []" by auto
  have cl: "createSmartClusters G ((length G + 29) div 30) = [filter atWest G, filter atEast G]"
    using createSmartClusters_two_points [OF _ centers pts w e] len by simp
  have "clusterBasedOptimization orig G m None = concat (optimizeClusterOrder [W, E] m G None)"
    unfolding clusterBasedOptimization_def Let_def cl by (simp add: W_def E_def cm_def)
  also have "\<dots> = W @ W"
    by (simp add: optimizeClusterOrder_duplicates [OF ww ee ne])
  finally show ?thesis using mw by blast
qed

lemma elmGroups: "groupSameLocationAddresses (elmStops n) = map elmGroup [0 ..< n]"
proof -
  have "map (\<lambda>a. Address.extend a \<lparr> groupedAddresses = None \<rparr>) (elmStops n) = map elmGroup [0 ..< n]"
    by (simp add: elmStops_def elmGroup_def comp_def)
  then show ?thesis by (simp only: groupSameLocationAddresses_elmStops)
qed

lemma elmGroup_place:
  "atWest (elmGroup i) \<longleftrightarrow> even i" "atEast (elmGroup i) \<longleftrightarrow> odd i"
  by (simp_all add: elmGroup_def atWest_def atEast_def extend_fields stopAt_def)

lemma elmGroup_coordinates:
  "lat (elmGroup i) = 0" "lon (elmGroup i) = (if even i then 0 else 1 / 20000)"
  by (simp_all add: elmGroup_def extend_fields stopAt_def)

lemma elmGroup_expand:
  "groupedAddresses (elmGroup i) = None"
  "Address.truncate (elmGroup i) =
     stopAt (natToString i) (natToString i @ '' Elm Rd 10'') 0 (if even i then 0 else 1 / 20000)"
  by (simp_all add: elmGroup_def groupedAddresses_extend truncate_extend)

lemma elmGroups_centers:
  "map (\<lambda>i. (lat (map elmGroup [0 ..< 101] ! ((i * length (map elmGroup [0 ..< 101])) div 4)),
             lon (map elmGroup [0 ..< 101] ! ((i * length (map elmGroup [0 ..< 101])) div 4))))
       [0 ..< 4] = fourCenters"
  by (simp add: upt4 fourCenters_def elmGroup_coordinates del: upt_Suc)

lemma expandGroupedRoute_set:
  "set (expandGroupedRoute r) =
   (\<Union>stop \<in> set r. set (case groupedAddresses stop of Some g \<Rightarrow> g | None \<Rightarrow> [Address.truncate stop]))"
  by (simp add: expandGroupedRoute_def)

lemma expandGroupedRoute_length_singletons:
  "\<forall>stop \<in> set r. groupedAddresses stop = None \<Longrightarrow> length (expandGroupedRoute r) = length r"
  by (induction r) (simp_all add: expandGroupedRoute_def)

lemma natToString_1: "natToString 1 = ''1''"
  by code_simp

text \<open>
  Claim C1 fails on the code. \<open>elmStops 101\<close> are 101 stops with distinct
  addresses, the even ones at one point and the odd ones 0.00005 degrees east of
  it. They make 101 groups, so the cluster tier runs, with four centres taken from
  the stops 0, 25, 50 and 75. The even stops gather at the first centre and the odd
  ones at the second; the two centroids are within 0.0001 degrees of each other, so
  \<open>optimizeClusterOrder\<close> finds the first cluster for both. Whatever the engine and
  the provider, the stop with id 1 is in the input and not in the output.
\<close>

theorem cluster_tier_drops_stops:
  "''1'' \<in> set (map id_a (elmStops 101)) \<and>
   ''1'' \<notin> set (map id_a (fst (optimizeRoute prov this (elmStops 101) None))) \<and>
   mset (map id_a (fst (optimizeRoute prov this (elmStops 101) None))) \<noteq>
   mset (map id_a (elmStops 101))"
proof -
  define G where "G = map elmGroup [0 ..< 101]"
  define dm where "dm = buildDistanceMatrix prov (googleMapsApiKey this) G"
  define out where "out = fst (optimizeRoute prov this (elmStops 101) None)"
  have g: "groupSameLocationAddresses (elmStops 101) = G" by (simp add: elmGroups G_def)
  have len: "length G = 101" by (simp add: G_def)
  have pts: "\<forall>a \<in> set G. atWest a \<or> atEast a" by (auto simp: G_def elmGroup_place)
  have "elmGroup 0 \<in> set G" "elmGroup 1 \<in> set G" by (auto simp: G_def)
  then have w: "\<exists>a \<in> set G. atWest a" and e: "\<exists>a \<in> set G. atEast a"
    using elmGroup_place(1) [of 0] elmGroup_place(2) [of 1] by auto
  from clusterBasedOptimization_two_points [OF len _ pts w e, of "Some G" dm]
  obtain W where cl: "clusterBasedOptimization (Some G) G dm None = W @ W"
    and mw: "mset W = mset (filter atWest G)"
    using elmGroups_centers unfolding G_def by blast
  have run: "out = expandGroupedRoute (applyLocalSearchImprovements (Some G) (W @ W) dm)"
    using len by (simp add: out_def optimizeRoute_def Let_def g dm_def [symmetric] cl length_elmStops)
  have "mset (applyLocalSearchImprovements (Some G) (W @ W) dm) = mset (W @ W)"
    by (rule applyLocalSearchImprovements_mset)
  then have "set (applyLocalSearchImprovements (Some G) (W @ W) dm) = set (W @ W)"
    by (rule mset_eq_setD)
  also have "\<dots> = set (filter atWest G)" using mset_eq_setD [OF mw] by simp
  finally have route: "set (applyLocalSearchImprovements (Some G) (W @ W) dm) = {a \<in> set G. atWest a}"
    by simp
  have no1: "''1'' \<notin> set (map id_a out)"
  proof
    assume "''1'' \<in> set (map id_a out)"
    then obtain a where a: "a \<in> set out" and ia: "id_a a = ''1''" by auto
    from a obtain stop where s: "stop \<in> {a \<in> set G. atWest a}"
      and m: "a \<in> set (case groupedAddresses stop of Some g \<Rightarrow> g | None \<Rightarrow> [Address.truncate stop])"
      unfolding run expandGroupedRoute_set route by blast
    from s obtain i where i: "stop = elmGroup i" "even i" by (auto simp: G_def elmGroup_place)
    with m have "a = stopAt (natToString i) (natToString i @ '' Elm Rd 10'') 0 (if even i then 0 else 1 / 20000)"
      by (simp add: elmGroup_expand)
    with ia have "natToString i = ''1''" by (simp add: stopAt_def)
    then have "natToString i = natToString 1" by (simp only: natToString_1)
    then have "i = 1" by (rule natToString_inj)
    with i(2) show False by simp
  qed
  have in1: "''1'' \<in> set (map id_a (elmStops 101))"
  proof -
    have m: "map id_a (elmStops 101) = map natToString [0 ..< 101]"
      by (simp add: elmStops_def stopAt_def comp_def)
    have "natToString 1 \<in> natToString ` set [0 ..< 101]" by (rule imageI) simp
    then show ?thesis unfolding m set_map natToString_1 .
  qed
  have "set (map id_a out) \<noteq> set (map id_a (elmStops 101))" using no1 in1 by blast
  then have "mset (map id_a out) \<noteq> mset (map id_a (elmStops 101))"
    by (metis set_mset_mset)
  with no1 in1 show ?thesis by (simp add: out_def)
qed

section \<open>Below the cluster tier the stops are preserved\<close>

text \<open>
  The construction heuristics, both local searches, the grouping and the expansion
  each keep the multiset of their input. So whenever at most 100 groups are formed,
  \<open>optimizeRoute\<close> returns a permutation of the stops it was given, whatever the
  provider answers: the loss of stops shown above is confined to the cluster tier.
\<close>

lemma nextAddress_nonempty:
  assumes "unvisited \<noteq> []"
  shows "nextAddress orig m current unvisited \<noteq> None"
proof -
  define step where "step = (\<lambda>candidate (next :: 'a Address_scheme option, minCost).
                  (let cost = candidateDistance orig m current candidate
                   in if lessThanBound cost minCost then (Some candidate, Some cost)
                      else (next, minCost)))"
  have keep: "fst acc \<noteq> None \<Longrightarrow> fst (fold step xs acc) \<noteq> None" for xs acc
  proof (induction xs arbitrary: acc)
    case Nil
    then show ?case by simp
  next
    case (Cons x xs)
    have "fst (step x acc) \<noteq> None" using Cons.prems by (cases acc) (simp add: step_def Let_def)
    from Cons.IH [OF this] show ?case by simp
  qed
  obtain x xs where u: "unvisited = x # xs" using assms by (cases unvisited) auto
  have "fst (step x (None, None)) \<noteq> None" by (simp add: step_def Let_def lessThanBound_def)
  from keep [OF this, of xs] show ?thesis
    by (simp add: nextAddress_def u step_def)
qed

lemma greedyLoop_mset:
  "mset (greedyLoop orig m current unvisited route) = mset route + mset unvisited"
proof (induction orig m current unvisited route rule: greedyLoop.induct)
  case (1 orig m current unvisited route)
  show ?case
  proof (cases "0 < length unvisited")
    case False
    then show ?thesis by (subst greedyLoop.simps) simp
  next
    case True
    then obtain n where n: "nextAddress orig m current unvisited = Some n"
      using nextAddress_nonempty [of unvisited orig m current] by auto
    then have "n \<in> set unvisited" by (rule nextAddress_in_set)
    with "1.IH" [OF True n] True n show ?thesis
      by (subst greedyLoop.simps) simp
  qed
qed

lemma greedyTSP_mset: "mset (greedyTSP orig addresses m start) = mset addresses"
proof (cases "length addresses \<le> 3")
  case True
  then show ?thesis by (simp add: greedyTSP_def nearestNeighborWithMatrix_mset)
next
  case False
  then have "addresses \<noteq> []" by auto
  from startingPoint_in_set [OF this, of start] False show ?thesis
    by (simp add: greedyTSP_def Let_def greedyLoop_mset)
qed

lemma christofidesApproximation_mset:
  "mset (christofidesApproximation orig addresses m start) = mset addresses"
  by (simp add: christofidesApproximation_def greedyTSP_mset apply2OptImprovement_mset
      nearestNeighborWithMatrix_mset)

lemma advancedTSPOptimization_mset:
  "mset (advancedTSPOptimization orig addresses m start) = mset addresses"
  using advancedTSPOptimization_least [of orig m addresses start]
  by (auto simp: leastOfThree_def nearestNeighborWithMatrix_mset greedyTSP_mset
      christofidesApproximation_mset)

lemma hybridOptimization_mset: "mset (hybridOptimization orig addresses m start) = mset addresses"
  by (simp add: hybridOptimization_def Let_def applyOrOptImprovement_mset apply2OptImprovement_mset
      nearestNeighborWithMatrix_mset)

lemma mset_concat_map_cong:
  "mset r = mset r' \<Longrightarrow> mset (concat (map f r)) = mset (concat (map f r'))"
proof -
  have "mset (concat (map f xs)) = (\<Sum>x \<in># mset xs. mset (f x))" for xs
    by (induction xs) simp_all
  then show "mset r = mset r' \<Longrightarrow> mset (concat (map f r)) = mset (concat (map f r'))"
    by simp
qed

lemma mapPush_groups:
  assumes "\<forall>(k, g) \<in> set groups. g \<noteq> []"
  shows "(\<forall>(k', g) \<in> set (mapPush groups k a). g \<noteq> []) \<and>
         mset (concat (map snd (mapPush groups k a))) = mset (concat (map snd groups)) + {#a#}"
  using assms
proof (induction groups)
  case Nil
  then show ?case by simp
next
  case (Cons p groups)
  obtain k' g where p: "p = (k', g)" by (cases p)
  from Cons.prems p have g: "g \<noteq> []" and rest: "\<forall>(k, g) \<in> set groups. g \<noteq> []" by auto
  show ?case
  proof (cases "k' = k")
    case True
    with g rest show ?thesis by (simp add: p)
  next
    case False
    with Cons.IH [OF rest] g show ?thesis by (simp add: p)
  qed
qed

lemma locationGroups_fold:
  "\<forall>(k, g) \<in> set acc. g \<noteq> [] \<Longrightarrow>
   (\<forall>(k, g) \<in> set (fold (\<lambda>a groups. mapPush groups (key a) a) xs acc). g \<noteq> []) \<and>
   mset (concat (map snd (fold (\<lambda>a groups. mapPush groups (key a) a) xs acc))) =
     mset (concat (map snd acc)) + mset xs"
proof (induction xs arbitrary: acc)
  case Nil
  then show ?case by simp
next
  case (Cons x xs)
  from mapPush_groups [OF Cons.prems, of "key x" x]
  have a: "\<forall>(k, g) \<in> set (mapPush acc (key x) x). g \<noteq> []"
    and b: "mset (concat (map snd (mapPush acc (key x) x))) = mset (concat (map snd acc)) + {#x#}"
    by auto
  from Cons.IH [OF a] b show ?case by simp
qed

lemma expand_groups: "mset (expandGroupedRoute (groupSameLocationAddresses addresses)) = mset addresses"
proof -
  let ?expand = "\<lambda>stop :: GroupedAddress.
      case groupedAddresses stop of Some g \<Rightarrow> g | None \<Rightarrow> [Address.truncate stop]"
  let ?group = "\<lambda>(locationKey, grp).
      if length grp = 1 then Address.extend (grp ! 0) \<lparr> groupedAddresses = None \<rparr>
      else representative locationKey grp"
  from locationGroups_fold [of "[]" "\<lambda>a. normalizeAddressForGrouping (address a)" addresses]
  have ne: "\<forall>(k, g) \<in> set (locationGroups addresses). g \<noteq> []"
    and m: "mset (concat (map snd (locationGroups addresses))) = mset addresses"
    by (simp_all add: locationGroups_def)
  have "map (\<lambda>p. ?expand (?group p)) (locationGroups addresses) = map snd (locationGroups addresses)"
  proof (rule map_cong [OF refl])
    fix p assume p: "p \<in> set (locationGroups addresses)"
    obtain k g where kg: "p = (k, g)" by (cases p)
    with p ne have g: "g \<noteq> []" by auto
    show "?expand (?group p) = snd p"
    proof (cases "length g = 1")
      case True
      then obtain a where "g = [a]" by (cases g) auto
      then show ?thesis by (simp add: kg groupedAddresses_extend truncate_extend)
    next
      case False
      then show ?thesis by (simp add: kg representative_def)
    qed
  qed
  moreover have "expandGroupedRoute (groupSameLocationAddresses addresses) =
      concat (map (\<lambda>p. ?expand (?group p)) (locationGroups addresses))"
    unfolding expandGroupedRoute_def groupSameLocationAddresses_def map_map comp_def ..
  ultimately have "expandGroupedRoute (groupSameLocationAddresses addresses) =
      concat (map snd (locationGroups addresses))"
    by (simp only:)
  with m show ?thesis by simp
qed

theorem smaller_tiers_permute_stops:
  assumes "length (groupSameLocationAddresses addresses) \<le> 100"
  shows "mset (fst (optimizeRoute prov this addresses start)) = mset addresses"
proof (cases "length addresses \<le> 2")
  case True
  then show ?thesis by (simp add: optimizeRoute_def)
next
  case False
  define g where "g = groupSameLocationAddresses addresses"
  define dm where "dm = buildDistanceMatrix prov (googleMapsApiKey this) g"
  define r where "r = (if length g \<le> 25 then advancedTSPOptimization (Some g) g dm start
                       else hybridOptimization (Some g) g dm start)"
  have "mset r = mset g" by (simp add: r_def advancedTSPOptimization_mset hybridOptimization_mset)
  then have "mset (applyLocalSearchImprovements (Some g) r dm) = mset g"
    by (simp add: applyLocalSearchImprovements_mset)
  then have "mset (expandGroupedRoute (applyLocalSearchImprovements (Some g) r dm)) =
      mset (expandGroupedRoute g)"
    unfolding expandGroupedRoute_def by (rule mset_concat_map_cong)
  also have "\<dots> = mset addresses" unfolding g_def by (rule expand_groups)
  finally have p: "mset (expandGroupedRoute (applyLocalSearchImprovements (Some g) r dm)) =
      mset addresses" .
  have "length g \<le> 100" using assms by (simp add: g_def)
  then have "fst (optimizeRoute prov this addresses start) =
      expandGroupedRoute (applyLocalSearchImprovements (Some g) r dm)"
    using False by (simp add: optimizeRoute_def Let_def g_def [symmetric] dm_def [symmetric] r_def)
  with p show ?thesis by simp
qed

theorem smaller_tiers_permute_stops_witness:
  "mset (fst (optimizeRoute flatProvider engineWithKey mainOakStops None)) = mset mainOakStops"
proof -
  have "length (groupSameLocationAddresses mainOakStops) \<le> 100" by code_simp
  then show ?thesis by (rule smaller_tiers_permute_stops)
qed

end
